theory Spec2Isabelle
  imports Main
begin

section \<open>JavaScript strings\<close>

text \<open>
  A JavaScript string is a sequence of UTF-16 code units. Code units are natural numbers;
  an ASCII literal is written \<open>js ''...''\<close>.
\<close>

type_synonym jsstring = "nat list"

type_synonym err = string

definition js :: "string \<Rightarrow> jsstring" where
  "js s = map of_char s"

text \<open>\<open>String.prototype.trim\<close> strips WhiteSpace and LineTerminator code units at both ends.\<close>

definition isWhiteSpace :: "nat \<Rightarrow> bool" where
  "isWhiteSpace c = (c \<in> set [0x09, 0x0A, 0x0B, 0x0C, 0x0D, 0x20, 0xA0, 0x1680,
      0x2000, 0x2001, 0x2002, 0x2003, 0x2004, 0x2005, 0x2006, 0x2007, 0x2008, 0x2009, 0x200A,
      0x2028, 0x2029, 0x202F, 0x205F, 0x3000, 0xFEFF])"

definition trim :: "jsstring \<Rightarrow> jsstring" where
  "trim s = rev (dropWhile isWhiteSpace (rev (dropWhile isWhiteSpace s)))"

text \<open>
  \<open>toLowerCase\<close>, on the letters A to Z. Other code units are left as they are: the
  tool-name tokens matched below are ASCII.
\<close>

definition toLowerCase :: "jsstring \<Rightarrow> jsstring" where
  "toLowerCase s = map (\<lambda>c. if 65 \<le> c \<and> c \<le> 90 then c + 32 else c) s"

text \<open>\<open>s.includes(t)\<close>: \<open>t\<close> occurs in \<open>s\<close> as a contiguous run.\<close>

fun includes_js :: "jsstring \<Rightarrow> jsstring \<Rightarrow> bool" where
  "includes_js [] t = (t = [])"
| "includes_js (c # s) t = (take (length t) (c # s) = t \<or> includes_js s t)"


section \<open>Follow-up queue outcomes\<close>

datatype FollowupQueueOutcomeStatus =
  OutcomeQueued | OutcomeSkipped | OutcomeDropped | OutcomeMerged | OutcomeFailed

record FollowupQueueOutcome =
  outcomeRunId :: jsstring
  outcomeStatus :: FollowupQueueOutcomeStatus
  outcomeReason :: jsstring

text \<open>
  What a call of the outcome callback does: it throws, it returns nothing, or it returns a
  promise that later resolves or rejects (its type is \<open>void | Promise<void>\<close>).
\<close>

datatype settle = Resolves | Rejects err

datatype handler_result = Throws err | ReturnsVoid | ReturnsPromise settle

text \<open>
  The fields of a \<open>FollowupRun\<close> that the outcome code reads or writes: \<open>run.run.runId\<close>
  (optional) and \<open>run.onQueueOutcome\<close> (optional). The rest is the record's extension.
\<close>

record FollowupRun =
  runId :: "jsstring option"
  onQueueOutcome :: "(FollowupQueueOutcome \<Rightarrow> handler_result) option"

text \<open>
  \<open>resolveQueueOutcomeRunId\<close>. The first argument is the value \<open>crypto.randomUUID()\<close>
  returns if it is called. The result is the returned identifier and the run as the call
  leaves it. \<open>runId?.trim()\<close> of an absent identifier is \<open>undefined\<close>, which is falsy, as
  the empty string is.
\<close>

definition resolveQueueOutcomeRunId ::
    "jsstring \<Rightarrow> 'a FollowupRun_scheme \<Rightarrow> jsstring \<times> 'a FollowupRun_scheme" where
  "resolveQueueOutcomeRunId generated run =
     (case map_option trim (runId run) of
        Some existing \<Rightarrow>
          if existing \<noteq> [] then (existing, run)
          else (generated, run\<lparr>runId := Some generated\<rparr>)
      | None \<Rightarrow> (generated, run\<lparr>runId := Some generated\<rparr>))"

text \<open>
  The strings \<open>crypto.randomUUID()\<close> can return: 36 code units, each a lower-case
  hexadecimal digit or a hyphen, the hyphens at offsets 8, 13, 18 and 23.
\<close>

definition isUuidChar :: "nat \<Rightarrow> bool" where
  "isUuidChar c = (c = 0x2D \<or> (0x30 \<le> c \<and> c \<le> 0x39) \<or> (0x61 \<le> c \<and> c \<le> 0x66))"

definition isRandomUUID :: "jsstring \<Rightarrow> bool" where
  "isRandomUUID g =
     (length g = 36 \<and> list_all isUuidChar g \<and>
      g ! 8 = 0x2D \<and> g ! 13 = 0x2D \<and> g ! 18 = 0x2D \<and> g ! 23 = 0x2D)"

text \<open>A string of that shape, for the examples.\<close>

definition exampleUUID :: jsstring where
  "exampleUUID = js ''123e4567-e89b-42d3-a456-426614174000''"

text \<open>\<open>promise.catch(() => {})\<close>: the derived promise resolves whatever the first one does.\<close>

definition catchIgnore :: "settle \<Rightarrow> settle" where
  "catchIgnore p = (case p of Resolves \<Rightarrow> Resolves | Rejects e \<Rightarrow> Resolves)"

definition unhandledRejections :: "settle \<Rightarrow> err list" where
  "unhandledRejections p = (case p of Resolves \<Rightarrow> [] | Rejects e \<Rightarrow> [e])"

text \<open>
  \<open>emitFollowupQueueOutcome\<close>. \<open>Inl e\<close> is the exception \<open>e\<close> leaving the function;
  \<open>Inr (run', rs)\<close> is a normal return, with the run as the call leaves it and the promise
  rejections that nothing handles. The identifier is resolved while the argument of the
  callback is built, inside the \<open>try\<close> block.
\<close>

definition emitFollowupQueueOutcome ::
    "jsstring \<Rightarrow> 'a FollowupRun_scheme \<Rightarrow> FollowupQueueOutcomeStatus \<Rightarrow> jsstring
      \<Rightarrow> err + ('a FollowupRun_scheme \<times> err list)" where
  "emitFollowupQueueOutcome generated run status reason =
     (case onQueueOutcome run of
        None \<Rightarrow> Inr (run, [])
      | Some handler \<Rightarrow>
          (let (rid, run') = resolveQueueOutcomeRunId generated run in
           case handler \<lparr>outcomeRunId = rid, outcomeStatus = status, outcomeReason = reason\<rparr> of
             Throws e \<Rightarrow> Inr (run', [])
           | ReturnsVoid \<Rightarrow> Inr (run', [])
           | ReturnsPromise p \<Rightarrow> Inr (run', unhandledRejections (catchIgnore p))))"


section \<open>Schema-refresh retry controller\<close>

text \<open>
  The result of one attempt, as far as the controller reads it: the top-level error of the
  attempt (the message of \<open>promptError\<close>, when there is one) and the last assistant turn.
\<close>

record LastAssistant =
  stopReason :: jsstring
  errorMessage :: "jsstring option"

record AttemptResult =
  promptError :: "jsstring option"
  lastAssistant :: "LastAssistant option"

datatype UnknownToolSource = FromPromptError | FromAssistantError

text \<open>
  Modelled from the spec: the two message patterns, which the spec names without giving them.
  \<open>unknown tool: <name>\<close> is read as: the text holds \<open>unknown tool: \<close> followed by at
  least one more code unit; \<open>tool "<name>" is not available\<close> as: the text holds
  \<open>tool "\<close> and, later, \<open>" is not available\<close>.
\<close>

fun afterFirst :: "jsstring \<Rightarrow> jsstring \<Rightarrow> jsstring option" where
  "afterFirst [] t = (if t = [] then Some [] else None)"
| "afterFirst (c # s) t =
     (if take (length t) (c # s) = t then Some (drop (length t) (c # s)) else afterFirst s t)"

definition isUnknownToolMessage :: "jsstring \<Rightarrow> bool" where
  "isUnknownToolMessage msg =
     (case afterFirst msg (js ''unknown tool: '') of None \<Rightarrow> False | Some rest \<Rightarrow> rest \<noteq> [])"

definition isToolNotAvailableMessage :: "jsstring \<Rightarrow> bool" where
  "isToolNotAvailableMessage msg =
     (case afterFirst msg (js ''tool '' @ [0x22]) of
        None \<Rightarrow> False
      | Some rest \<Rightarrow> includes_js rest (0x22 # js '' is not available''))"

text \<open>
  Modelled from the spec: the classification of an attempt (section 4.4): an unknown-tool
  failure is (a) a top-level error whose message matches the unknown-tool pattern, or (b) no
  top-level error and a last assistant turn that ended with an error whose text matches the
  not-available pattern. The patterns are parameters.
\<close>

definition classifyUnknownTool ::
    "(jsstring \<Rightarrow> bool) \<Rightarrow> (jsstring \<Rightarrow> bool) \<Rightarrow> AttemptResult \<Rightarrow> UnknownToolSource option" where
  "classifyUnknownTool unknownTool notAvailable r =
     (case promptError r of
        Some msg \<Rightarrow> if unknownTool msg then Some FromPromptError else None
      | None \<Rightarrow>
          (case lastAssistant r of
             None \<Rightarrow> None
           | Some la \<Rightarrow>
               (case errorMessage la of
                  None \<Rightarrow> None
                | Some text \<Rightarrow>
                    if stopReason la = js ''error'' \<and> notAvailable text
                    then Some FromAssistantError else None)))"

text \<open>
  Modelled from the spec: how the attempt that ends the run leaves the controller. Its
  top-level error, when it has one, propagates: it is thrown to the caller.
\<close>

definition propagate :: "AttemptResult \<Rightarrow> jsstring + AttemptResult" where
  "propagate r = (case promptError r of Some msg \<Rightarrow> Inl msg | None \<Rightarrow> Inr r)"

record RefreshRun =
  outcome :: "jsstring + AttemptResult"
  attempts :: "bool list"
  detected :: "UnknownToolSource list"

text \<open>
  Modelled from the spec: \<open>runWithSchemaRefresh\<close> (the retry inside \<open>runEmbeddedPiAgent\<close>,
  whose source is not part of the files at hand; only its test is). \<open>attemptFn n refresh\<close>
  is the result of the \<open>n\<close>-th call of the attempt function, made with
  \<open>refreshToolSchema = refresh\<close>. The run records the flag of every call made and the
  source logged at a detection.
\<close>

definition runWithSchemaRefresh ::
    "(jsstring \<Rightarrow> bool) \<Rightarrow> (jsstring \<Rightarrow> bool) \<Rightarrow> (nat \<Rightarrow> bool \<Rightarrow> AttemptResult) \<Rightarrow> RefreshRun" where
  "runWithSchemaRefresh unknownTool notAvailable attemptFn =
     (let first = attemptFn 0 False in
      case classifyUnknownTool unknownTool notAvailable first of
        None \<Rightarrow> \<lparr>outcome = propagate first, attempts = [False], detected = []\<rparr>
      | Some source \<Rightarrow>
          (let second = attemptFn 1 True in
           \<lparr>outcome = propagate second, attempts = [False, True], detected = [source]\<rparr>))"

text \<open>The attempt results of the test file, as functions of the call number.\<close>

definition unknownToolFailure :: AttemptResult where
  "unknownToolFailure =
     \<lparr>promptError = Some (js ''unknown tool: plugin_search''), lastAssistant = None\<rparr>"

definition cleanAttempt :: AttemptResult where
  "cleanAttempt = \<lparr>promptError = None, lastAssistant = None\<rparr>"

definition assistantNotAvailable :: "LastAssistant" where
  "assistantNotAvailable =
     \<lparr>stopReason = js ''error'',
      errorMessage = Some (js ''tool '' @ [0x22] @ js ''plugin_search'' @ [0x22] @ js '' is not available'')\<rparr>"

definition transportFailure :: AttemptResult where
  "transportFailure =
     \<lparr>promptError = Some (js ''transport disconnected''), lastAssistant = Some assistantNotAvailable\<rparr>"


section \<open>Timers and promise chains\<close>

text \<open>
  A variable that holds a timer handle: \<open>Idle\<close> is \<open>null\<close>; \<open>Armed d x\<close> is the handle of
  a timer that is pending and due at time \<open>d\<close> (milliseconds), whose callback has captured
  \<open>x\<close>; \<open>Spent\<close> is the handle of a timer that has fired. Handles are truthy. A callback
  runs at a time not before the timer is due.
\<close>

datatype 'a timer = Idle | Armed nat 'a | Spent

fun due :: "'a timer \<Rightarrow> nat \<Rightarrow> bool" where
  "due (Armed d x) now = (d \<le> now)"
| "due t now = False"

fun isArmed :: "'a timer \<Rightarrow> bool" where
  "isArmed (Armed d x) = True"
| "isArmed t = False"


section \<open>Status reaction controller of the message handler\<close>

definition DISCORD_STATUS_THINKING_EMOJI :: jsstring where
  "DISCORD_STATUS_THINKING_EMOJI = [0xD83E, 0xDD14]"

definition DISCORD_STATUS_TOOL_EMOJI :: jsstring where
  "DISCORD_STATUS_TOOL_EMOJI = [0xD83D, 0xDEE0, 0xFE0F]"

definition DISCORD_STATUS_CODING_EMOJI :: jsstring where
  "DISCORD_STATUS_CODING_EMOJI = [0xD83D, 0xDCBB]"

definition DISCORD_STATUS_WEB_EMOJI :: jsstring where
  "DISCORD_STATUS_WEB_EMOJI = [0xD83C, 0xDF10]"

definition DISCORD_STATUS_DONE_EMOJI :: jsstring where
  "DISCORD_STATUS_DONE_EMOJI = [0x2705]"

definition DISCORD_STATUS_ERROR_EMOJI :: jsstring where
  "DISCORD_STATUS_ERROR_EMOJI = [0x274C]"

definition DISCORD_STATUS_STALL_SOFT_EMOJI :: jsstring where
  "DISCORD_STATUS_STALL_SOFT_EMOJI = [0x23F3]"

definition DISCORD_STATUS_STALL_HARD_EMOJI :: jsstring where
  "DISCORD_STATUS_STALL_HARD_EMOJI = [0x26A0, 0xFE0F]"

definition DISCORD_STATUS_DONE_HOLD_MS :: nat where
  "DISCORD_STATUS_DONE_HOLD_MS = 1500"

definition DISCORD_STATUS_ERROR_HOLD_MS :: nat where
  "DISCORD_STATUS_ERROR_HOLD_MS = 2500"

definition DISCORD_STATUS_DEBOUNCE_MS :: nat where
  "DISCORD_STATUS_DEBOUNCE_MS = 150"

definition DISCORD_STATUS_STALL_SOFT_MS :: nat where
  "DISCORD_STATUS_STALL_SOFT_MS = 10000"

definition DISCORD_STATUS_STALL_HARD_MS :: nat where
  "DISCORD_STATUS_STALL_HARD_MS = 30000"

definition DISCORD_STATUS_DEFERRED_ERROR_RETRY_TTL_MS :: nat where
  "DISCORD_STATUS_DEFERRED_ERROR_RETRY_TTL_MS = 45000"

datatype DiscordStatusTransitionMode = Full | AckOnly

datatype DiscordStatusSemanticPhase = Queued | Waiting | Active | Terminal

fun DISCORD_STATUS_PHASE_ORDER :: "DiscordStatusSemanticPhase \<Rightarrow> nat" where
  "DISCORD_STATUS_PHASE_ORDER Queued = 0"
| "DISCORD_STATUS_PHASE_ORDER Waiting = 1"
| "DISCORD_STATUS_PHASE_ORDER Active = 2"
| "DISCORD_STATUS_PHASE_ORDER Terminal = 3"

definition CODING_STATUS_TOOL_TOKENS :: "jsstring list" where
  "CODING_STATUS_TOOL_TOKENS =
     [js ''exec'', js ''process'', js ''read'', js ''write'', js ''edit'',
      js ''session_status'', js ''bash'']"

definition WEB_STATUS_TOOL_TOKENS :: "jsstring list" where
  "WEB_STATUS_TOOL_TOKENS =
     [js ''web_search'', js ''web-search'', js ''web_fetch'', js ''web-fetch'', js ''browser'']"

definition resolveToolStatusEmoji :: "jsstring option \<Rightarrow> jsstring" where
  "resolveToolStatusEmoji toolName =
     (let normalized = (case toolName of None \<Rightarrow> [] | Some n \<Rightarrow> toLowerCase (trim n)) in
      if normalized = [] then DISCORD_STATUS_TOOL_EMOJI
      else if list_ex (includes_js normalized) WEB_STATUS_TOOL_TOKENS then DISCORD_STATUS_WEB_EMOJI
      else if list_ex (includes_js normalized) CODING_STATUS_TOOL_TOKENS
        then DISCORD_STATUS_CODING_EMOJI
      else DISCORD_STATUS_TOOL_EMOJI)"

text \<open>The parameters of \<open>createDiscordStatusReactionController\<close> (the REST handle left out).\<close>

record ControllerParams =
  enabled :: bool
  transitionMode :: DiscordStatusTransitionMode
  channelId :: jsstring
  messageId :: jsstring
  initialEmoji :: jsstring

text \<open>
  The calls to Discord, and the answer of Discord to a call: an error or none. The works
  \<open>await\<close> their calls with no handler attached, so that a call that throws and a call
  whose promise rejects end a work in the same way: one kind of error stands for both.
\<close>

datatype DiscordCall =
  ReactMessage jsstring jsstring jsstring
| RemoveReaction jsstring jsstring jsstring

type_synonym discord = "DiscordCall \<Rightarrow> err option"

text \<open>The two kinds of work that the controller puts on its chain.\<close>

datatype StatusWork = ApplyEmojiWork jsstring | ClearWork

text \<open>
  The variables of one controller. \<open>chain\<close> is the promise chain: the works chained and not
  yet run, oldest first, and \<open>chainTail\<close> how the latest link that has run settled
  (\<open>Promise.resolve()\<close> at first). A work runs as a whole, in the order of chaining:
  nothing outside the works writes \<open>activeEmoji\<close>, the one variable a work reads and writes.
  \<open>discordCalls\<close> and \<open>ackFailures\<close> are not variables of the source: they record the
  calls made to Discord, each with its answer, and what \<open>logAckFailure\<close> was given.
\<close>

record Controller =
  activeEmoji :: "jsstring option"
  chain :: "StatusWork list"
  chainTail :: settle
  pendingEmoji :: "jsstring option"
  pendingTimer :: "bool timer"
  finished :: bool
  semanticPhase :: DiscordStatusSemanticPhase
  softStallTimer :: "unit timer"
  hardStallTimer :: "unit timer"
  discordCalls :: "(DiscordCall \<times> err option) list"
  ackFailures :: "err list"

definition createDiscordStatusReactionController :: Controller where
  "createDiscordStatusReactionController =
     \<lparr>activeEmoji = None, chain = [], chainTail = Resolves, pendingEmoji = None,
      pendingTimer = Idle, finished = False, semanticPhase = Queued,
      softStallTimer = Idle, hardStallTimer = Idle, discordCalls = [], ackFailures = []\<rparr>"

definition transitionsAllowed :: "ControllerParams \<Rightarrow> bool" where
  "transitionsAllowed p = (enabled p \<and> transitionMode p = Full)"

definition hasReachedActivePhase :: "Controller \<Rightarrow> bool" where
  "hasReachedActivePhase c =
     (DISCORD_STATUS_PHASE_ORDER (semanticPhase c) \<ge> DISCORD_STATUS_PHASE_ORDER Active)"

text \<open>\<open>transitionSemanticPhase\<close>: whether the transition is accepted, and the controller after it.\<close>

definition transitionSemanticPhase ::
    "DiscordStatusSemanticPhase \<Rightarrow> Controller \<Rightarrow> bool \<times> Controller" where
  "transitionSemanticPhase nextPhase c =
     (if semanticPhase c = Terminal then (nextPhase = Terminal, c)
      else if DISCORD_STATUS_PHASE_ORDER nextPhase < DISCORD_STATUS_PHASE_ORDER (semanticPhase c)
        then (False, c)
      else (True, c\<lparr>semanticPhase := nextPhase\<rparr>))"

definition enqueue :: "StatusWork \<Rightarrow> Controller \<Rightarrow> Controller" where
  "enqueue work c = c\<lparr>chain := chain c @ [work]\<rparr>"

definition clearStallTimers :: "Controller \<Rightarrow> Controller" where
  "clearStallTimers c = c\<lparr>softStallTimer := Idle, hardStallTimer := Idle\<rparr>"

definition clearPendingDebounce :: "Controller \<Rightarrow> Controller" where
  "clearPendingDebounce c = c\<lparr>pendingTimer := Idle, pendingEmoji := None\<rparr>"

definition applyEmoji :: "jsstring \<Rightarrow> Controller \<Rightarrow> Controller" where
  "applyEmoji emoji c = enqueue (ApplyEmojiWork emoji) c"

text \<open>
  \<open>requestEmoji\<close>, at time \<open>now\<close>, with the options \<open>immediate\<close> and
  \<open>allowInitialRegression\<close> (absent options are false). The debounce timer captures the
  options of its request.
\<close>

definition requestEmoji ::
    "ControllerParams \<Rightarrow> nat \<Rightarrow> jsstring \<Rightarrow> bool \<Rightarrow> bool \<Rightarrow> Controller \<Rightarrow> Controller" where
  "requestEmoji p now emoji immediate allowInitialRegression c =
     (if \<not> enabled p \<or> emoji = [] then c
      else if hasReachedActivePhase c \<and> emoji = DISCORD_STATUS_STALL_SOFT_EMOJI then c
      else if hasReachedActivePhase c \<and> emoji = initialEmoji p \<and> \<not> allowInitialRegression then c
      else if immediate then applyEmoji emoji (clearPendingDebounce c)
      else c\<lparr>pendingEmoji := Some emoji,
             pendingTimer := Armed (now + DISCORD_STATUS_DEBOUNCE_MS) allowInitialRegression\<rparr>)"

text \<open>The callback of the debounce timer.\<close>

definition pendingTimerFires :: "ControllerParams \<Rightarrow> nat \<Rightarrow> Controller \<Rightarrow> Controller" where
  "pendingTimerFires p now c =
     (case pendingTimer c of
        Armed d allowInitialRegression \<Rightarrow>
          if d \<le> now then
            (let emojiToApply = pendingEmoji c;
                 c1 = c\<lparr>pendingTimer := Idle, pendingEmoji := None\<rparr>
             in case emojiToApply of
                  None \<Rightarrow> c1
                | Some e \<Rightarrow>
                    if e = [] \<or> Some e = activeEmoji c1 then c1
                    else if hasReachedActivePhase c1 \<and> e = DISCORD_STATUS_STALL_SOFT_EMOJI then c1
                    else if hasReachedActivePhase c1 \<and> e = initialEmoji p
                            \<and> \<not> allowInitialRegression then c1
                    else applyEmoji e c1)
          else c
      | _ \<Rightarrow> c)"

definition scheduleStallTimers :: "ControllerParams \<Rightarrow> nat \<Rightarrow> Controller \<Rightarrow> Controller" where
  "scheduleStallTimers p now c =
     (if \<not> transitionsAllowed p \<or> finished c then c
      else (clearStallTimers c)
             \<lparr>softStallTimer := Armed (now + DISCORD_STATUS_STALL_SOFT_MS) (),
              hardStallTimer := Armed (now + DISCORD_STATUS_STALL_HARD_MS) ()\<rparr>)"

text \<open>The callbacks of the two stall timers. Neither resets its variable.\<close>

definition softStallTimerFires :: "ControllerParams \<Rightarrow> nat \<Rightarrow> Controller \<Rightarrow> Controller" where
  "softStallTimerFires p now c =
     (if due (softStallTimer c) now then
        (let c1 = c\<lparr>softStallTimer := Spent\<rparr> in
         if finished c1 then c1
         else requestEmoji p now DISCORD_STATUS_STALL_SOFT_EMOJI True False c1)
      else c)"

definition hardStallTimerFires :: "ControllerParams \<Rightarrow> nat \<Rightarrow> Controller \<Rightarrow> Controller" where
  "hardStallTimerFires p now c =
     (if due (hardStallTimer c) now then
        (let c1 = c\<lparr>hardStallTimer := Spent\<rparr> in
         if finished c1 then c1
         else requestEmoji p now DISCORD_STATUS_STALL_HARD_EMOJI True False c1)
      else c)"

definition setPhase :: "ControllerParams \<Rightarrow> nat \<Rightarrow> jsstring \<Rightarrow> Controller \<Rightarrow> Controller" where
  "setPhase p now emoji c =
     (if \<not> transitionsAllowed p \<or> finished c then c
      else case transitionSemanticPhase Active c of
             (False, c1) \<Rightarrow> c1
           | (True, c1) \<Rightarrow> requestEmoji p now emoji False False (scheduleStallTimers p now c1))"

definition setWaiting :: "ControllerParams \<Rightarrow> nat \<Rightarrow> Controller \<Rightarrow> Controller" where
  "setWaiting p now c =
     (if \<not> transitionsAllowed p \<or> finished c then c
      else case transitionSemanticPhase Waiting c of
             (False, c1) \<Rightarrow> c1
           | (True, c1) \<Rightarrow>
               requestEmoji p now DISCORD_STATUS_STALL_SOFT_EMOJI True False (clearStallTimers c1))"

definition setTerminal :: "ControllerParams \<Rightarrow> nat \<Rightarrow> jsstring \<Rightarrow> Controller \<Rightarrow> Controller" where
  "setTerminal p now emoji c =
     (if \<not> transitionsAllowed p then c
      else case transitionSemanticPhase Terminal c of
             (False, c1) \<Rightarrow> c1
           | (True, c1) \<Rightarrow>
               requestEmoji p now emoji True False (clearStallTimers (c1\<lparr>finished := True\<rparr>)))"

definition setRetryableError :: "ControllerParams \<Rightarrow> nat \<Rightarrow> Controller \<Rightarrow> Controller" where
  "setRetryableError p now c =
     (if \<not> transitionsAllowed p \<or> finished c then c
      else case transitionSemanticPhase Active c of
             (False, c1) \<Rightarrow> c1
           | (True, c1) \<Rightarrow>
               requestEmoji p now DISCORD_STATUS_ERROR_EMOJI True False (clearStallTimers c1))"

definition clear :: "ControllerParams \<Rightarrow> Controller \<Rightarrow> Controller" where
  "clear p c =
     (if \<not> enabled p then c
      else enqueue ClearWork (clearPendingDebounce (clearStallTimers (c\<lparr>finished := True\<rparr>))))"

definition restoreInitial :: "ControllerParams \<Rightarrow> nat \<Rightarrow> Controller \<Rightarrow> Controller" where
  "restoreInitial p now c =
     (if \<not> enabled p then c
      else requestEmoji p now (initialEmoji p) True True
             (clearPendingDebounce (clearStallTimers (c\<lparr>finished := True\<rparr>))))"

definition setQueued :: "ControllerParams \<Rightarrow> nat \<Rightarrow> Controller \<Rightarrow> Controller" where
  "setQueued p now c =
     (if \<not> enabled p \<or> finished c then c
      else if transitionsAllowed p then
        (case transitionSemanticPhase Queued c of
           (False, c1) \<Rightarrow> c1
         | (True, c1) \<Rightarrow> requestEmoji p now (initialEmoji p) True False (scheduleStallTimers p now c1))
      else requestEmoji p now (initialEmoji p) True False c)"

definition setThinking :: "ControllerParams \<Rightarrow> nat \<Rightarrow> Controller \<Rightarrow> Controller" where
  "setThinking p now c = setPhase p now DISCORD_STATUS_THINKING_EMOJI c"

definition setTool :: "ControllerParams \<Rightarrow> nat \<Rightarrow> jsstring option \<Rightarrow> Controller \<Rightarrow> Controller" where
  "setTool p now toolName c = setPhase p now (resolveToolStatusEmoji toolName) c"

definition setDone :: "ControllerParams \<Rightarrow> nat \<Rightarrow> Controller \<Rightarrow> Controller" where
  "setDone p now c = setTerminal p now DISCORD_STATUS_DONE_EMOJI c"

definition setError :: "ControllerParams \<Rightarrow> nat \<Rightarrow> Controller \<Rightarrow> Controller" where
  "setError p now c = setTerminal p now DISCORD_STATUS_ERROR_EMOJI c"


text \<open>
  \<open>logAckFailure\<close>, as far as the model goes: the error is recorded. The logger is taken to
  return.
\<close>

definition logAckFailure :: "err \<Rightarrow> Controller \<Rightarrow> Controller" where
  "logAckFailure e c = c\<lparr>ackFailures := ackFailures c @ [e]\<rparr>"

text \<open>One call to Discord: the answer, and the call recorded with it.\<close>

definition callDiscord :: "discord \<Rightarrow> DiscordCall \<Rightarrow> Controller \<Rightarrow> err option \<times> Controller" where
  "callDiscord d call c = (d call, c\<lparr>discordCalls := discordCalls c @ [(call, d call)]\<rparr>)"

text \<open>
  The work that \<open>applyEmoji\<close> chains. The result is the controller as the work leaves it
  and the error the work throws, if it throws: a failed call ends the work there.
\<close>

definition applyEmojiWork ::
    "ControllerParams \<Rightarrow> discord \<Rightarrow> jsstring \<Rightarrow> Controller \<Rightarrow> Controller \<times> err option" where
  "applyEmojiWork p d emoji c =
     (if \<not> enabled p \<or> emoji = [] \<or> activeEmoji c = Some emoji then (c, None)
      else
        (let previousEmoji = activeEmoji c in
         case callDiscord d (ReactMessage (channelId p) (messageId p) emoji) c of
           (Some e, c1) \<Rightarrow> (c1, Some e)
         | (None, c1) \<Rightarrow>
             (let c2 = c1\<lparr>activeEmoji := Some emoji\<rparr> in
              case previousEmoji of
                None \<Rightarrow> (c2, None)
              | Some prev \<Rightarrow>
                  if prev \<noteq> [] \<and> prev \<noteq> emoji then
                    (case callDiscord d (RemoveReaction (channelId p) (messageId p) prev) c2 of
                       (Some e, c3) \<Rightarrow> (c3, Some e)
                     | (None, c3) \<Rightarrow> (c3, None))
                  else (c2, None))))"

text \<open>A JavaScript \<open>Set\<close> built from a list: each value once, in the order of first insertion.\<close>

primrec jsSet :: "'a list \<Rightarrow> 'a list" where
  "jsSet [] = []"
| "jsSet (x # xs) = x # filter (\<lambda>y. y \<noteq> x) (jsSet xs)"

text \<open>The loop of \<open>clear\<close> over the candidates: a failed removal is logged and the loop goes on.\<close>

fun removeCandidates ::
    "ControllerParams \<Rightarrow> discord \<Rightarrow> jsstring list \<Rightarrow> Controller \<Rightarrow> Controller" where
  "removeCandidates p d [] c = c"
| "removeCandidates p d (emoji # rest) c =
     (if emoji = [] then removeCandidates p d rest c
      else case callDiscord d (RemoveReaction (channelId p) (messageId p) emoji) c of
             (Some e, c1) \<Rightarrow> removeCandidates p d rest (logAckFailure e c1)
           | (None, c1) \<Rightarrow> removeCandidates p d rest c1)"

definition cleanupCandidates :: "ControllerParams \<Rightarrow> Controller \<Rightarrow> jsstring list" where
  "cleanupCandidates p c =
     jsSet [initialEmoji p,
            (case activeEmoji c of None \<Rightarrow> [] | Some a \<Rightarrow> a),
            DISCORD_STATUS_THINKING_EMOJI, DISCORD_STATUS_TOOL_EMOJI,
            DISCORD_STATUS_CODING_EMOJI, DISCORD_STATUS_WEB_EMOJI,
            DISCORD_STATUS_DONE_EMOJI, DISCORD_STATUS_ERROR_EMOJI,
            DISCORD_STATUS_STALL_SOFT_EMOJI, DISCORD_STATUS_STALL_HARD_EMOJI]"

definition clearWork ::
    "ControllerParams \<Rightarrow> discord \<Rightarrow> Controller \<Rightarrow> Controller \<times> err option" where
  "clearWork p d c =
     (removeCandidates p d (cleanupCandidates p c) (c\<lparr>activeEmoji := None\<rparr>), None)"

fun execWork ::
    "ControllerParams \<Rightarrow> discord \<Rightarrow> StatusWork \<Rightarrow> Controller \<Rightarrow> Controller \<times> err option" where
  "execWork p d (ApplyEmojiWork emoji) c = applyEmojiWork p d emoji c"
| "execWork p d ClearWork c = clearWork p d c"

text \<open>
  \<open>chain.then(work).catch(logAckFailure)\<close>: \<open>thenWork\<close> runs the work when the link before
  it resolved and passes a rejection on otherwise; \<open>catchLog\<close> logs a rejection and resolves.
\<close>

definition thenWork ::
    "settle \<Rightarrow> (Controller \<Rightarrow> Controller \<times> err option) \<Rightarrow> Controller \<Rightarrow> Controller \<times> settle" where
  "thenWork earlier work c =
     (case earlier of
        Rejects e \<Rightarrow> (c, Rejects e)
      | Resolves \<Rightarrow>
          (case work c of (c1, Some e) \<Rightarrow> (c1, Rejects e) | (c1, None) \<Rightarrow> (c1, Resolves)))"

definition catchLog :: "Controller \<times> settle \<Rightarrow> Controller \<times> settle" where
  "catchLog r =
     (case r of (c, Rejects e) \<Rightarrow> (logAckFailure e c, Resolves) | (c, Resolves) \<Rightarrow> (c, Resolves))"

text \<open>The oldest work of the chain runs, Discord answering as \<open>d\<close> says.\<close>

definition chainRuns :: "ControllerParams \<Rightarrow> discord \<Rightarrow> Controller \<Rightarrow> Controller" where
  "chainRuns p d c =
     (case chain c of
        [] \<Rightarrow> c
      | work # rest \<Rightarrow>
          (let c0 = c\<lparr>chain := rest\<rparr>;
               (c1, link) = catchLog (thenWork (chainTail c0) (execWork p d work) c0)
           in c1\<lparr>chainTail := link\<rparr>))"

text \<open>
  What can happen to a controller: a call of one of its operations, a timer that fires, the
  next work of the chain running. Each happens at a time.
\<close>

datatype ControllerEvent =
  CallSetQueued
| CallSetWaiting
| CallSetThinking
| CallSetTool "jsstring option"
| CallSetRetryableError
| CallSetDone
| CallSetError
| CallClear
| CallRestoreInitial
| PendingTimerFires
| SoftStallTimerFires
| HardStallTimerFires
| ChainRuns discord

fun controllerStep :: "ControllerParams \<Rightarrow> nat \<times> ControllerEvent \<Rightarrow> Controller \<Rightarrow> Controller" where
  "controllerStep p (now, CallSetQueued) c = setQueued p now c"
| "controllerStep p (now, CallSetWaiting) c = setWaiting p now c"
| "controllerStep p (now, CallSetThinking) c = setThinking p now c"
| "controllerStep p (now, CallSetTool toolName) c = setTool p now toolName c"
| "controllerStep p (now, CallSetRetryableError) c = setRetryableError p now c"
| "controllerStep p (now, CallSetDone) c = setDone p now c"
| "controllerStep p (now, CallSetError) c = setError p now c"
| "controllerStep p (now, CallClear) c = clear p c"
| "controllerStep p (now, CallRestoreInitial) c = restoreInitial p now c"
| "controllerStep p (now, PendingTimerFires) c = pendingTimerFires p now c"
| "controllerStep p (now, SoftStallTimerFires) c = softStallTimerFires p now c"
| "controllerStep p (now, HardStallTimerFires) c = hardStallTimerFires p now c"
| "controllerStep p (now, ChainRuns d) c = chainRuns p d c"

fun controllerRun ::
    "ControllerParams \<Rightarrow> (nat \<times> ControllerEvent) list \<Rightarrow> Controller \<Rightarrow> Controller" where
  "controllerRun p [] c = c"
| "controllerRun p (ev # evs) c = controllerRun p evs (controllerStep p ev c)"


definition fullParams :: ControllerParams where
  "fullParams =
     \<lparr>enabled = True, transitionMode = Full, channelId = js ''c1'', messageId = js ''m1'',
      initialEmoji = [0xD83D, 0xDC40]\<rparr>"


text \<open>The event that runs the chain.\<close>

fun isChainRuns :: "ControllerEvent \<Rightarrow> bool" where
  "isChainRuns (ChainRuns d) = True"
| "isChainRuns ev = False"


section \<open>Reaction status machine\<close>

text \<open>
  \<open>DiscordWorkEmoji\<close>, in the order of the type: eyes, brain, laptop, globe, tools,
  hourglass, warning, check mark, cross mark.
\<close>

datatype DiscordWorkEmoji =
  Eyes | Brain | Laptop | Globe | Tools | Hourglass | Warning | CheckMark | CrossMark

definition MIDDLE_STATE_DEBOUNCE_MS :: nat where
  "MIDDLE_STATE_DEBOUNCE_MS = 700"

definition STALL_SOFT_MS :: nat where
  "STALL_SOFT_MS = 10000"

definition STALL_HARD_MS :: nat where
  "STALL_HARD_MS = 30000"

definition SUCCESS_HOLD_MS :: nat where
  "SUCCESS_HOLD_MS = 1500"

definition FAILURE_HOLD_MS :: nat where
  "FAILURE_HOLD_MS = 4000"

definition resolveToolStateEmoji :: "jsstring option \<Rightarrow> DiscordWorkEmoji" where
  "resolveToolStateEmoji toolText =
     (let text = toLowerCase (case toolText of None \<Rightarrow> [] | Some t \<Rightarrow> t) in
      if includes_js text (js ''web_search'') \<or> includes_js text (js ''web-search'') \<or>
         includes_js text (js ''web_fetch'') \<or> includes_js text (js ''web-fetch'') \<or>
         includes_js text (js ''browser'')
      then Globe
      else if includes_js text (js ''exec'') \<or> includes_js text (js ''read'') \<or>
         includes_js text (js ''write'') \<or> includes_js text (js ''edit'') \<or>
         includes_js text (js ''process'')
      then Laptop
      else Tools)"

text \<open>
  The two calls of the parameters. A call either throws on the spot or returns a promise,
  which fulfils or rejects later; \<open>answer\<close> is what became of a call.
\<close>

datatype ReactionCall = SetReaction DiscordWorkEmoji | ClearReaction DiscordWorkEmoji

datatype answer = Fulfilled | Rejected err | Thrown err

text \<open>Which calls throw on the spot, and what: \<open>None\<close> for a call that returns its promise.\<close>

type_synonym throwing = "ReactionCall \<Rightarrow> err option"

text \<open>
  The tasks that the machine puts on its lane: \<open>setEmojiImmediate\<close> alone (from \<open>start\<close>
  and from the debounce callback); \<open>setEmojiImmediate\<close> with the rest of \<open>finish\<close> to run
  once the lane has settled (the hold timer); the removal that \<open>dispose\<close> chains.
\<close>

datatype MachineTask =
  SetEmojiTask DiscordWorkEmoji
| FinishTask DiscordWorkEmoji nat
| ClearReactionTask DiscordWorkEmoji

text \<open>
  A task is suspended at each \<open>await\<close> of a call, and anything can happen to the machine
  before it goes on. \<open>Suspended\<close> says where a task waits: in \<open>setEmojiImmediate emoji\<close> for
  \<open>clearReaction previous\<close> or for \<open>setReaction emoji\<close>, or in the task of \<open>dispose\<close> for
  \<open>clearReaction emoji\<close>. A step of a task ends at the next \<open>await\<close> or with the task, which
  then has returned (\<open>Ends None\<close>) or thrown (\<open>Ends (Some e)\<close>).
\<close>

datatype Suspended =
  AwaitRemove DiscordWorkEmoji DiscordWorkEmoji
| AwaitSet DiscordWorkEmoji
| AwaitClear DiscordWorkEmoji

datatype taskStep = Waits Suspended | Ends "err option"

text \<open>
  The variables of one machine. \<open>lane\<close> holds the tasks chained and not yet started, oldest
  first, \<open>running\<close> the task that has started and not ended, with the place where it waits,
  and \<open>laneTail\<close> how the latest link that has ended settled. \<open>reactionCalls\<close> and \<open>reported\<close>
  are not variables of the source: they record the calls that have been answered, each with
  its answer, and the messages given to \<open>onError\<close>, each as the fixed text and the error
  that follows it.
\<close>

record Machine =
  currentEmoji :: "DiscordWorkEmoji option"
  pendingMiddleEmoji :: "DiscordWorkEmoji option"
  lastProgressAt :: nat
  disposed :: bool
  terminal :: bool
  debounceTimer :: "unit timer"
  softStallTimerM :: "unit timer"
  hardStallTimerM :: "unit timer"
  clearTimer :: "unit timer"
  lane :: "MachineTask list"
  running :: "(MachineTask \<times> Suspended) option"
  laneTail :: settle
  reactionCalls :: "(ReactionCall \<times> answer) list"
  reported :: "(string \<times> err) list"

text \<open>\<open>createDiscordReactionStatusMachine\<close>, called at time \<open>now\<close>.\<close>

definition createDiscordReactionStatusMachine :: "nat \<Rightarrow> Machine" where
  "createDiscordReactionStatusMachine now =
     \<lparr>currentEmoji = None, pendingMiddleEmoji = None, lastProgressAt = now,
      disposed = False, terminal = False, debounceTimer = Idle, softStallTimerM = Idle,
      hardStallTimerM = Idle, clearTimer = Idle, lane = [], running = None,
      laneTail = Resolves, reactionCalls = [], reported = []\<rparr>"

definition clearTimers :: "Machine \<Rightarrow> Machine" where
  "clearTimers m =
     m\<lparr>debounceTimer := Idle, softStallTimerM := Idle, hardStallTimerM := Idle,
       clearTimer := Idle\<rparr>"

definition enqueueM :: "MachineTask \<Rightarrow> Machine \<Rightarrow> Machine" where
  "enqueueM task m = m\<lparr>lane := lane m @ [task]\<rparr>"

text \<open>
  \<open>params.onError?.(text + String(err))\<close>; the flag says whether \<open>onError\<close> is given.
  The callback is taken to return: what it does when it throws is not modelled.
\<close>

definition onError :: "bool \<Rightarrow> string \<Rightarrow> err \<Rightarrow> Machine \<Rightarrow> Machine" where
  "onError given text e m = (if given then m\<lparr>reported := reported m @ [(text, e)]\<rparr> else m)"

definition recordCall :: "ReactionCall \<Rightarrow> answer \<Rightarrow> Machine \<Rightarrow> Machine" where
  "recordCall call a m = m\<lparr>reactionCalls := reactionCalls m @ [(call, a)]\<rparr>"

text \<open>
  A task makes a call. When the call throws, \<open>.catch\<close> is never reached and the task ends
  there, throwing the error; otherwise the task waits for the promise.
\<close>

definition makeCall :: "throwing \<Rightarrow> ReactionCall \<Rightarrow> Suspended \<Rightarrow> Machine \<Rightarrow> Machine \<times> taskStep" where
  "makeCall throws call wait m =
     (case throws call of
        Some e \<Rightarrow> (recordCall call (Thrown e) m, Ends (Some e))
      | None \<Rightarrow> (m, Waits wait))"

text \<open>
  The promise of a call has settled, fulfilled (\<open>None\<close>) or rejected: the handler given to
  \<open>.catch\<close> reports a rejection, and the task goes on either way.
\<close>

definition callSettles :: "bool \<Rightarrow> err option \<Rightarrow> ReactionCall \<Rightarrow> string \<Rightarrow> Machine \<Rightarrow> Machine" where
  "callSettles given s call text m =
     (case s of
        None \<Rightarrow> recordCall call Fulfilled m
      | Some e \<Rightarrow> onError given text e (recordCall call (Rejected e) m))"

text \<open>\<open>setEmojiImmediate\<close>, up to its first \<open>await\<close>.\<close>

definition setEmojiImmediate :: "throwing \<Rightarrow> DiscordWorkEmoji \<Rightarrow> Machine \<Rightarrow> Machine \<times> taskStep" where
  "setEmojiImmediate throws emoji m =
     (if disposed m \<or> Some emoji = currentEmoji m then (m, Ends None)
      else case currentEmoji m of
             Some previous \<Rightarrow>
               makeCall throws (ClearReaction previous) (AwaitRemove previous emoji) m
           | None \<Rightarrow> makeCall throws (SetReaction emoji) (AwaitSet emoji) m)"

text \<open>
  \<open>scheduleStallChecks\<close> at time \<open>now\<close>. The elapsed time is a difference of two clock
  readings; the delays are not negative.
\<close>

definition stallDeadline :: "nat \<Rightarrow> nat \<Rightarrow> nat \<Rightarrow> nat" where
  "stallDeadline now progressAt window =
     nat (int now + max 0 (int window - (int now - int progressAt)))"

definition scheduleMiddleState :: "nat \<Rightarrow> DiscordWorkEmoji \<Rightarrow> Machine \<Rightarrow> Machine" where
  "scheduleMiddleState now emoji m =
     (if disposed m \<or> terminal m then m
      else if currentEmoji m = Some emoji \<or> pendingMiddleEmoji m = Some emoji then m
      else m\<lparr>pendingMiddleEmoji := Some emoji,
             debounceTimer := Armed (now + MIDDLE_STATE_DEBOUNCE_MS) ()\<rparr>)"

definition scheduleStallChecks :: "nat \<Rightarrow> Machine \<Rightarrow> Machine" where
  "scheduleStallChecks now m =
     (if disposed m \<or> terminal m then m
      else m\<lparr>softStallTimerM := Armed (stallDeadline now (lastProgressAt m) STALL_SOFT_MS) (),
             hardStallTimerM := Armed (stallDeadline now (lastProgressAt m) STALL_HARD_MS) ()\<rparr>)"

text \<open>The callbacks of the two stall timers. Neither resets its variable.\<close>

definition softStallFires :: "nat \<Rightarrow> Machine \<Rightarrow> Machine" where
  "softStallFires now m =
     (if due (softStallTimerM m) now then
        (let m1 = m\<lparr>softStallTimerM := Spent\<rparr> in
         if disposed m1 \<or> terminal m1 then m1
         else if int now - int (lastProgressAt m1) \<ge> int STALL_SOFT_MS
           then scheduleMiddleState now Hourglass m1
         else m1)
      else m)"

definition hardStallFires :: "nat \<Rightarrow> Machine \<Rightarrow> Machine" where
  "hardStallFires now m =
     (if due (hardStallTimerM m) now then
        (let m1 = m\<lparr>hardStallTimerM := Spent\<rparr> in
         if disposed m1 \<or> terminal m1 then m1
         else if int now - int (lastProgressAt m1) \<ge> int STALL_HARD_MS
           then scheduleMiddleState now Warning m1
         else m1)
      else m)"

definition markProgress :: "nat \<Rightarrow> Machine \<Rightarrow> Machine" where
  "markProgress now m = scheduleStallChecks now (m\<lparr>lastProgressAt := now\<rparr>)"

text \<open>The callback of the debounce timer.\<close>

definition debounceFires :: "nat \<Rightarrow> Machine \<Rightarrow> Machine" where
  "debounceFires now m =
     (if due (debounceTimer m) now then
        (let next = pendingMiddleEmoji m;
             m1 = m\<lparr>pendingMiddleEmoji := None, debounceTimer := Idle\<rparr>
         in case next of
              None \<Rightarrow> m1
            | Some e \<Rightarrow>
                if disposed m1 \<or> terminal m1 \<or> Some e = currentEmoji m1 then m1
                else enqueueM (SetEmojiTask e) m1)
      else m)"

text \<open>
  \<open>finish\<close>, up to its \<open>await\<close>: the part after it is in the task. The pending emoji is
  dropped together with the debounce timer, when the variable of the timer holds a handle.
\<close>

definition finish :: "DiscordWorkEmoji \<Rightarrow> nat \<Rightarrow> Machine \<Rightarrow> Machine" where
  "finish emoji holdMs m =
     (if disposed m \<or> terminal m then m
      else
        (let m1 = m\<lparr>terminal := True\<rparr>;
             m2 = (if debounceTimer m1 \<noteq> Idle
                   then m1\<lparr>debounceTimer := Idle, pendingMiddleEmoji := None\<rparr> else m1);
             m3 = m2\<lparr>softStallTimerM := Idle, hardStallTimerM := Idle\<rparr>
         in enqueueM (FinishTask emoji holdMs) m3))"

definition start :: "nat \<Rightarrow> Machine \<Rightarrow> Machine" where
  "start now m = (if disposed m then m else enqueueM (SetEmojiTask Eyes) (markProgress now m))"

definition thinking :: "nat \<Rightarrow> Machine \<Rightarrow> Machine" where
  "thinking now m =
     (if disposed m \<or> terminal m then m else scheduleMiddleState now Brain (markProgress now m))"

definition tool :: "nat \<Rightarrow> jsstring option \<Rightarrow> Machine \<Rightarrow> Machine" where
  "tool now toolText m =
     (if disposed m \<or> terminal m then m
      else scheduleMiddleState now (resolveToolStateEmoji toolText) (markProgress now m))"

definition progress :: "nat \<Rightarrow> Machine \<Rightarrow> Machine" where
  "progress now m = (if disposed m \<or> terminal m then m else markProgress now m)"

definition succeed :: "Machine \<Rightarrow> Machine" where
  "succeed m = finish CheckMark SUCCESS_HOLD_MS m"

definition fail :: "Machine \<Rightarrow> Machine" where
  "fail m = finish CrossMark FAILURE_HOLD_MS m"

definition dispose :: "Machine \<Rightarrow> Machine" where
  "dispose m =
     (if disposed m then m
      else
        (let m1 = clearTimers (m\<lparr>disposed := True\<rparr>);
             emoji = currentEmoji m1;
             m2 = m1\<lparr>currentEmoji := None\<rparr>
         in case emoji of None \<Rightarrow> m2 | Some e \<Rightarrow> enqueueM (ClearReactionTask e) m2))"

text \<open>The callback of the hold timer.\<close>

definition clearTimerFires :: "nat \<Rightarrow> Machine \<Rightarrow> Machine" where
  "clearTimerFires now m =
     (if due (clearTimer m) now then dispose (m\<lparr>clearTimer := Spent\<rparr>) else m)"

text \<open>A task starts: it runs up to its first \<open>await\<close>, or to its end.\<close>

fun startTask :: "throwing \<Rightarrow> MachineTask \<Rightarrow> Machine \<Rightarrow> Machine \<times> taskStep" where
  "startTask throws (SetEmojiTask emoji) m = setEmojiImmediate throws emoji m"
| "startTask throws (FinishTask emoji holdMs) m = setEmojiImmediate throws emoji m"
| "startTask throws (ClearReactionTask emoji) m =
     makeCall throws (ClearReaction emoji) (AwaitClear emoji) m"

text \<open>
  A task goes on once the promise it waits for has settled as \<open>s\<close> says. After the removal
  of the previous emoji, \<open>setEmojiImmediate\<close> sets the new one, without looking at
  \<open>disposed\<close> again; after that call it assigns \<open>currentEmoji\<close>.
\<close>

fun resumeTask ::
    "bool \<Rightarrow> err option \<Rightarrow> throwing \<Rightarrow> Suspended \<Rightarrow> Machine \<Rightarrow> Machine \<times> taskStep" where
  "resumeTask given s throws (AwaitRemove previous emoji) m =
     makeCall throws (SetReaction emoji) (AwaitSet emoji)
       (callSettles given s (ClearReaction previous) ''discord status remove reaction failed: '' m)"
| "resumeTask given s throws (AwaitSet emoji) m =
     ((callSettles given s (SetReaction emoji) ''discord status set reaction failed: '' m)
        \<lparr>currentEmoji := Some emoji\<rparr>, Ends None)"
| "resumeTask given s throws (AwaitClear emoji) m =
     (callSettles given s (ClearReaction emoji) ''discord status clear reaction failed: '' m,
      Ends None)"

text \<open>
  \<open>lane.then(task).catch(...)\<close>: the handler of the lane reports what the task threw, or the
  rejection of the link before, and the link resolves.
\<close>

definition catchReport :: "bool \<Rightarrow> Machine \<times> settle \<Rightarrow> Machine \<times> settle" where
  "catchReport given r =
     (case r of
        (m, Rejects e) \<Rightarrow> (onError given ''discord status reaction failed: '' e m, Resolves)
      | (m, Resolves) \<Rightarrow> (m, Resolves))"

text \<open>What \<open>finish\<close> does once the lane has settled: it arms the hold timer.\<close>

fun afterTask :: "nat \<Rightarrow> MachineTask \<Rightarrow> settle \<Rightarrow> Machine \<Rightarrow> Machine" where
  "afterTask now (FinishTask emoji holdMs) Resolves m = m\<lparr>clearTimer := Armed (now + holdMs) ()\<rparr>"
| "afterTask now task link m = m"

text \<open>
  The link of a task settles at time \<open>now\<close>, the task having ended as \<open>res\<close> says: the
  handler of the lane runs, then the rest of \<open>finish\<close>. Both follow the end of the task
  with no timer and no answer of Discord in between, and they are part of the same step.
\<close>

definition linkSettles :: "bool \<Rightarrow> nat \<Rightarrow> MachineTask \<Rightarrow> err option \<Rightarrow> Machine \<Rightarrow> Machine" where
  "linkSettles given now task res m =
     (let (m1, link) =
            catchReport given (m, case res of None \<Rightarrow> Resolves | Some e \<Rightarrow> Rejects e)
      in afterTask now task link (m1\<lparr>running := None, laneTail := link\<rparr>))"

fun taskStepped :: "bool \<Rightarrow> nat \<Rightarrow> MachineTask \<Rightarrow> Machine \<times> taskStep \<Rightarrow> Machine" where
  "taskStepped given now task (m, Waits wait) = m\<lparr>running := Some (task, wait)\<rparr>"
| "taskStepped given now task (m, Ends res) = linkSettles given now task res m"

text \<open>
  The lane takes one step at time \<open>now\<close>. The task that waits goes on, its promise having
  settled as \<open>s\<close> says; when no task waits, the oldest task of the lane starts (were the
  link before it rejected, the task would be skipped and the rejection handled). The step
  ends where the task waits next, or with the task and its link. A call made in the step
  throws as \<open>throws\<close> says.
\<close>

definition laneRuns :: "bool \<Rightarrow> err option \<Rightarrow> throwing \<Rightarrow> nat \<Rightarrow> Machine \<Rightarrow> Machine" where
  "laneRuns given s throws now m =
     (case running m of
        Some (task, wait) \<Rightarrow> taskStepped given now task (resumeTask given s throws wait m)
      | None \<Rightarrow>
          (case lane m of
             [] \<Rightarrow> m
           | task # rest \<Rightarrow>
               (case laneTail m of
                  Rejects e \<Rightarrow> linkSettles given now task (Some e) (m\<lparr>lane := rest\<rparr>)
                | Resolves \<Rightarrow>
                    taskStepped given now task (startTask throws task (m\<lparr>lane := rest\<rparr>)))))"

text \<open>
  What can happen to a machine: a call of one of its operations, a timer that fires, a step
  of the lane. Each happens at a time.
\<close>

datatype MachineEvent =
  CallStart
| CallThinking
| CallTool "jsstring option"
| CallProgress
| CallSucceed
| CallFail
| CallDispose
| DebounceFires
| SoftStallFires
| HardStallFires
| ClearTimerFires
| LaneRuns "err option" throwing

fun machineStep :: "bool \<Rightarrow> nat \<times> MachineEvent \<Rightarrow> Machine \<Rightarrow> Machine" where
  "machineStep given (now, CallStart) m = start now m"
| "machineStep given (now, CallThinking) m = thinking now m"
| "machineStep given (now, CallTool toolText) m = tool now toolText m"
| "machineStep given (now, CallProgress) m = progress now m"
| "machineStep given (now, CallSucceed) m = succeed m"
| "machineStep given (now, CallFail) m = fail m"
| "machineStep given (now, CallDispose) m = dispose m"
| "machineStep given (now, DebounceFires) m = debounceFires now m"
| "machineStep given (now, SoftStallFires) m = softStallFires now m"
| "machineStep given (now, HardStallFires) m = hardStallFires now m"
| "machineStep given (now, ClearTimerFires) m = clearTimerFires now m"
| "machineStep given (now, LaneRuns s throws) m = laneRuns given s throws now m"

fun machineRun :: "bool \<Rightarrow> (nat \<times> MachineEvent) list \<Rightarrow> Machine \<Rightarrow> Machine" where
  "machineRun given [] m = m"
| "machineRun given (ev # evs) m = machineRun given evs (machineStep given ev m)"

text \<open>
  The calls that a terminal machine ignores: \<open>thinking\<close>, \<open>tool\<close>, \<open>progress\<close>, \<open>succeed\<close>
  and \<open>fail\<close>.
\<close>

fun laterCall :: "MachineEvent \<Rightarrow> bool" where
  "laterCall CallThinking = True"
| "laterCall (CallTool toolText) = True"
| "laterCall CallProgress = True"
| "laterCall CallSucceed = True"
| "laterCall CallFail = True"
| "laterCall ev = False"

text \<open>
  The events that are neither \<open>start\<close> nor \<open>dispose\<close> nor the hold timer, which calls
  \<open>dispose\<close>.
\<close>

fun beforeDispose :: "MachineEvent \<Rightarrow> bool" where
  "beforeDispose CallStart = False"
| "beforeDispose CallDispose = False"
| "beforeDispose ClearTimerFires = False"
| "beforeDispose ev = True"


section \<open>Deferred status registry and event bridge\<close>

text \<open>
  A \<open>DeferredDiscordStatusEntry\<close>. Entries and controllers are objects: the model keeps
  them in stores and names them by reference. \<open>controllerRef\<close> is the reference of the
  controller of the entry; \<open>onLifecycleStart\<close>, when it is given, sets the flag
  \<open>deferredLifecycleStarted\<close> of the message handler whose number it holds.
\<close>

record DeferredDiscordStatusEntry =
  entryRunId :: jsstring
  entryChannelId :: jsstring
  entryMessageId :: jsstring
  removeAckAfterReply :: bool
  controllerRef :: nat
  onLifecycleStart :: "nat option"
  retryCleanupTimer :: "unit timer"

text \<open>
  An asynchronous function that waits: \<open>settleDeferredDiscordStatus\<close> at
  \<open>await entry.controller.setDone()\<close>, until so many works of the chain of the controller
  have run, and at \<open>await sleep(DISCORD_STATUS_DONE_HOLD_MS)\<close>, until the time given.
\<close>

datatype Await = AwaitChain nat nat bool | AwaitSleep nat nat

text \<open>
  The state of the module: the map \<open>DEFERRED_DISCORD_STATUS_BY_RUN\<close>, the entries and the
  controllers by reference, the flag of the bridge, the number of listeners that the module
  has subscribed with \<open>onAgentEvent\<close>, the message handlers whose
  \<open>deferredLifecycleStarted\<close> is set, and the functions that wait.
\<close>

record World =
  DEFERRED_DISCORD_STATUS_BY_RUN :: "jsstring \<rightharpoonup> nat"
  entries :: "nat \<rightharpoonup> DeferredDiscordStatusEntry"
  nextEntry :: nat
  deferredDiscordStatusBridgeReady :: bool
  listeners :: nat
  controllers :: "nat \<rightharpoonup> ControllerParams \<times> Controller"
  nextController :: nat
  deferredLifecycleStarted :: "nat set"
  awaiting :: "Await list"

definition initialWorld :: World where
  "initialWorld =
     \<lparr>DEFERRED_DISCORD_STATUS_BY_RUN = Map.empty, entries = Map.empty, nextEntry = 0,
      deferredDiscordStatusBridgeReady = False, listeners = 0, controllers = Map.empty,
      nextController = 0, deferredLifecycleStarted = {}, awaiting = []\<rparr>"

text \<open>An agent event, as far as the bridge reads it.\<close>

record AgentEvent =
  evRunId :: jsstring
  evStream :: jsstring
  evPhase :: "jsstring option"
  evName :: "jsstring option"

text \<open>An assignment to \<open>entry.retryCleanupTimer\<close>, and a call of an operation of a controller.\<close>

definition setRetryCleanupTimer :: "nat \<Rightarrow> unit timer \<Rightarrow> World \<Rightarrow> World" where
  "setRetryCleanupTimer ref t w =
     (case entries w ref of
        None \<Rightarrow> w
      | Some entry \<Rightarrow> w\<lparr>entries := (entries w)(ref \<mapsto> entry\<lparr>retryCleanupTimer := t\<rparr>)\<rparr>)"

definition onController ::
    "nat \<Rightarrow> (ControllerParams \<Rightarrow> Controller \<Rightarrow> Controller) \<Rightarrow> World \<Rightarrow> World" where
  "onController ref f w =
     (case controllers w ref of
        None \<Rightarrow> w
      | Some (p, c) \<Rightarrow> w\<lparr>controllers := (controllers w)(ref \<mapsto> (p, f p c))\<rparr>)"

definition clearDeferredDiscordRetryCleanup :: "nat \<Rightarrow> World \<Rightarrow> World" where
  "clearDeferredDiscordRetryCleanup ref w =
     (case entries w ref of
        None \<Rightarrow> w
      | Some entry \<Rightarrow>
          if retryCleanupTimer entry = Idle then w else setRetryCleanupTimer ref Idle w)"

text \<open>\<open>unregisterDeferredDiscordStatus\<close>: the entry returned, if any, and the state after.\<close>

definition unregisterDeferredDiscordStatus :: "jsstring \<Rightarrow> World \<Rightarrow> nat option \<times> World" where
  "unregisterDeferredDiscordStatus rid w =
     (case DEFERRED_DISCORD_STATUS_BY_RUN w rid of
        None \<Rightarrow> (None, w)
      | Some ref \<Rightarrow>
          (let w1 = clearDeferredDiscordRetryCleanup ref w in
           (Some ref,
            w1\<lparr>DEFERRED_DISCORD_STATUS_BY_RUN :=
                 (DEFERRED_DISCORD_STATUS_BY_RUN w1)(rid := None)\<rparr>)))"

definition scheduleDeferredDiscordRetryCleanup :: "nat \<Rightarrow> nat \<Rightarrow> World \<Rightarrow> World" where
  "scheduleDeferredDiscordRetryCleanup now ref w =
     setRetryCleanupTimer ref (Armed (now + DISCORD_STATUS_DEFERRED_ERROR_RETRY_TTL_MS) ())
       (clearDeferredDiscordRetryCleanup ref w)"

text \<open>The callback of the cleanup timer of the entry \<open>ref\<close>.\<close>

definition retryCleanupTimerFires :: "nat \<Rightarrow> nat \<Rightarrow> World \<Rightarrow> World" where
  "retryCleanupTimerFires now ref w =
     (case entries w ref of
        None \<Rightarrow> w
      | Some entry \<Rightarrow>
          if due (retryCleanupTimer entry) now then
            (let w1 = setRetryCleanupTimer ref Spent w in
             if DEFERRED_DISCORD_STATUS_BY_RUN w1 (entryRunId entry) \<noteq> Some ref then w1
             else setRetryCleanupTimer ref Idle
                    (w1\<lparr>DEFERRED_DISCORD_STATUS_BY_RUN :=
                          (DEFERRED_DISCORD_STATUS_BY_RUN w1)(entryRunId entry := None)\<rparr>))
          else w)"

text \<open>
  \<open>settleDeferredDiscordStatus\<close>. For the phase \<open>end\<close> it runs up to the first \<open>await\<close>
  that has to wait; \<open>afterDone\<close> is the part after \<open>await entry.controller.setDone()\<close>.
  \<open>setDone\<close> hands back the promise of the work it has chained, or one that is resolved
  when it has chained none.
\<close>

definition afterDone :: "nat \<Rightarrow> nat \<Rightarrow> bool \<Rightarrow> World \<Rightarrow> World" where
  "afterDone now cref removeAck w =
     (if removeAck
      then w\<lparr>awaiting := awaiting w @ [AwaitSleep (now + DISCORD_STATUS_DONE_HOLD_MS) cref]\<rparr>
      else onController cref (\<lambda>p. restoreInitial p now) w)"

definition settleEnd :: "nat \<Rightarrow> DeferredDiscordStatusEntry \<Rightarrow> World \<Rightarrow> World" where
  "settleEnd now entry w =
     (case controllers w (controllerRef entry) of
        None \<Rightarrow> w
      | Some (p, c) \<Rightarrow>
          (let c1 = setDone p now c;
               w1 = w\<lparr>controllers := (controllers w)(controllerRef entry \<mapsto> (p, c1))\<rparr>
           in if length (chain c1) > length (chain c)
              then w1\<lparr>awaiting := awaiting w1 @
                     [AwaitChain (controllerRef entry) (length (chain c1))
                        (removeAckAfterReply entry)]\<rparr>
              else afterDone now (controllerRef entry) (removeAckAfterReply entry) w1))"

definition settleError :: "nat \<Rightarrow> DeferredDiscordStatusEntry \<Rightarrow> World \<Rightarrow> World" where
  "settleError now entry w =
     onController (controllerRef entry) (\<lambda>p. setRetryableError p now) w"

definition terminateDeferredDiscordWaiting :: "nat \<Rightarrow> nat \<Rightarrow> World \<Rightarrow> World" where
  "terminateDeferredDiscordWaiting now ref w =
     (case entries w ref of
        None \<Rightarrow> w
      | Some entry \<Rightarrow>
          if removeAckAfterReply entry then onController (controllerRef entry) clear w
          else onController (controllerRef entry) (\<lambda>p. restoreInitial p now) w)"

text \<open>The listener that \<open>ensureDeferredDiscordStatusBridge\<close> subscribes.\<close>

definition deferredStatusListener :: "nat \<Rightarrow> AgentEvent \<Rightarrow> World \<Rightarrow> World" where
  "deferredStatusListener now evt w =
     (case DEFERRED_DISCORD_STATUS_BY_RUN w (evRunId evt) of
        None \<Rightarrow> w
      | Some ref \<Rightarrow>
          (case entries w ref of
             None \<Rightarrow> w
           | Some entry \<Rightarrow>
               (let phase = (case evPhase evt of None \<Rightarrow> [] | Some s \<Rightarrow> s) in
                if evStream evt = js ''lifecycle'' then
                  (if phase = js ''start'' then
                     (let w1 = clearDeferredDiscordRetryCleanup ref w;
                          w2 = (case onLifecycleStart entry of
                                  None \<Rightarrow> w1
                                | Some h \<Rightarrow>
                                    w1\<lparr>deferredLifecycleStarted :=
                                         insert h (deferredLifecycleStarted w1)\<rparr>)
                      in onController (controllerRef entry) (\<lambda>p. setThinking p now) w2)
                   else if phase = js ''error'' then
                     settleError now entry (scheduleDeferredDiscordRetryCleanup now ref w)
                   else if phase = js ''end'' then
                     settleEnd now entry (snd (unregisterDeferredDiscordStatus (evRunId evt) w))
                   else w)
                else if evStream evt = js ''tool'' \<and> (phase = js ''start'' \<or> phase = js ''update'')
                  then onController (controllerRef entry) (\<lambda>p. setTool p now (evName evt)) w
                else w)))"

definition ensureDeferredDiscordStatusBridge :: "World \<Rightarrow> World" where
  "ensureDeferredDiscordStatusBridge w =
     (if deferredDiscordStatusBridgeReady w then w
      else w\<lparr>deferredDiscordStatusBridgeReady := True, listeners := listeners w + 1\<rparr>)"

text \<open>
  \<open>registerDeferredDiscordStatus\<close>. The argument has no \<open>retryCleanupTimer\<close> in the
  source; the field of the argument is not read. The entry stored is a new object.
\<close>

definition registerDeferredDiscordStatus :: "DeferredDiscordStatusEntry \<Rightarrow> World \<Rightarrow> World" where
  "registerDeferredDiscordStatus entry w =
     (let rid = trim (entryRunId entry) in
      if rid = [] then w
      else
        (let w1 = ensureDeferredDiscordStatusBridge w;
             w2 = snd (unregisterDeferredDiscordStatus rid w1);
             ref = nextEntry w2
         in w2\<lparr>entries := (entries w2)(ref \<mapsto> entry\<lparr>entryRunId := rid, retryCleanupTimer := Idle\<rparr>),
               DEFERRED_DISCORD_STATUS_BY_RUN := (DEFERRED_DISCORD_STATUS_BY_RUN w2)(rid \<mapsto> ref),
               nextEntry := ref + 1\<rparr>))"

text \<open>An agent event is emitted: each subscribed listener is called with it.\<close>

definition emitAgentEvent :: "nat \<Rightarrow> AgentEvent \<Rightarrow> World \<Rightarrow> World" where
  "emitAgentEvent now evt w = ((deferredStatusListener now evt) ^^ listeners w) w"

text \<open>
  Something happens to the controller \<open>cref\<close>. When a work of its chain has run, the
  functions that wait for the chain go on.
\<close>

fun resumeAwaiting :: "nat \<Rightarrow> nat \<Rightarrow> Await list \<Rightarrow> World \<Rightarrow> World" where
  "resumeAwaiting now cref [] w = w"
| "resumeAwaiting now cref (AwaitChain r k removeAck # rest) w =
     (if r = cref then
        (if k \<le> 1 then resumeAwaiting now cref rest (afterDone now cref removeAck w)
         else resumeAwaiting now cref rest
                (w\<lparr>awaiting := awaiting w @ [AwaitChain r (k - 1) removeAck]\<rparr>))
      else resumeAwaiting now cref rest (w\<lparr>awaiting := awaiting w @ [AwaitChain r k removeAck]\<rparr>))"
| "resumeAwaiting now cref (a # rest) w =
     resumeAwaiting now cref rest (w\<lparr>awaiting := awaiting w @ [a]\<rparr>)"

definition controllerEvent :: "nat \<Rightarrow> nat \<Rightarrow> ControllerEvent \<Rightarrow> World \<Rightarrow> World" where
  "controllerEvent now cref ev w =
     (case controllers w cref of
        None \<Rightarrow> w
      | Some (p, c) \<Rightarrow>
          (let w1 = w\<lparr>controllers := (controllers w)(cref \<mapsto> (p, controllerStep p (now, ev) c))\<rparr>
           in if isChainRuns ev \<and> chain c \<noteq> []
              then resumeAwaiting now cref (awaiting w1) (w1\<lparr>awaiting := []\<rparr>)
              else w1))"

text \<open>A sleep ends: the function that waits for it goes on with \<open>clear\<close>.\<close>

definition sleepEnds :: "nat \<Rightarrow> nat \<Rightarrow> World \<Rightarrow> World" where
  "sleepEnds now i w =
     (if i < length (awaiting w) then
        (case awaiting w ! i of
           AwaitSleep d cref \<Rightarrow>
             if d \<le> now
             then onController cref clear
                    (w\<lparr>awaiting := take i (awaiting w) @ drop (Suc i) (awaiting w)\<rparr>)
             else w
         | AwaitChain r k removeAck \<Rightarrow> w)
      else w)"

definition newController :: "ControllerParams \<Rightarrow> World \<Rightarrow> World" where
  "newController p w =
     w\<lparr>controllers := (controllers w)(nextController w \<mapsto> (p, createDiscordStatusReactionController)),
       nextController := nextController w + 1\<rparr>"

text \<open>What can happen to the module, each at a time.\<close>

datatype WorldEvent =
  NewController ControllerParams
| Register DeferredDiscordStatusEntry
| Unregister jsstring
| TerminateWaiting nat
| AgentEventEmitted AgentEvent
| RetryCleanupTimerFires nat
| OnController nat ControllerEvent
| SleepEnds nat

fun worldStep :: "nat \<times> WorldEvent \<Rightarrow> World \<Rightarrow> World" where
  "worldStep (now, NewController p) w = newController p w"
| "worldStep (now, Register entry) w = registerDeferredDiscordStatus entry w"
| "worldStep (now, Unregister rid) w = snd (unregisterDeferredDiscordStatus rid w)"
| "worldStep (now, TerminateWaiting ref) w = terminateDeferredDiscordWaiting now ref w"
| "worldStep (now, AgentEventEmitted evt) w = emitAgentEvent now evt w"
| "worldStep (now, RetryCleanupTimerFires ref) w = retryCleanupTimerFires now ref w"
| "worldStep (now, OnController cref ev) w = controllerEvent now cref ev w"
| "worldStep (now, SleepEnds i) w = sleepEnds now i w"

fun worldRun :: "(nat \<times> WorldEvent) list \<Rightarrow> World \<Rightarrow> World" where
  "worldRun [] w = w"
| "worldRun (ev # evs) w = worldRun evs (worldStep ev w)"

text \<open>
  The events that are not about the run \<open>rid\<close>, whose entry is \<open>ref\<close>: an agent event,
  a registration or a removal for another identifier, the cleanup timer of another entry,
  and whatever happens to controllers.
\<close>

fun notAbout :: "jsstring \<Rightarrow> nat \<Rightarrow> WorldEvent \<Rightarrow> bool" where
  "notAbout rid ref (Register entry) = (trim (entryRunId entry) \<noteq> rid)"
| "notAbout rid ref (Unregister k) = (k \<noteq> rid)"
| "notAbout rid ref (AgentEventEmitted evt) = (evRunId evt \<noteq> rid)"
| "notAbout rid ref (RetryCleanupTimerFires x) = (x \<noteq> ref)"
| "notAbout rid ref ev = True"


section \<open>Notions used in the proofs\<close>

text \<open>
  A work touches the active emoji and the two records, and nothing else. \<open>timersOf\<close> gathers
  the rest.
\<close>

definition timersOf ::
    "Controller \<Rightarrow> DiscordStatusSemanticPhase \<times> bool \<times> unit timer \<times> unit timer \<times> bool timer
       \<times> jsstring option \<times> StatusWork list \<times> settle" where
  "timersOf c =
     (semanticPhase c, finished c, softStallTimer c, hardStallTimer c, pendingTimer c,
      pendingEmoji c, chain c, chainTail c)"

text \<open>
  A step of the lane touches the current emoji, the hold timer, the lane and the records,
  and nothing else. \<open>coreOf\<close> gathers the rest, with the tasks not yet started.
\<close>

definition coreOf ::
    "Machine \<Rightarrow> DiscordWorkEmoji option \<times> nat \<times> bool \<times> bool \<times> unit timer \<times> unit timer
       \<times> unit timer \<times> MachineTask list" where
  "coreOf m =
     (pendingMiddleEmoji m, lastProgressAt m, disposed m, terminal m, debounceTimer m,
      softStallTimerM m, hardStallTimerM m, lane m)"

text \<open>
  What holds of a machine whatever has happened to it: a pending emoji has its debounce
  timer, unless the machine is disposed; a stall timer that is armed is due one window after
  the latest progress, on a machine that is neither disposed nor terminal.
\<close>

definition machineInv :: "Machine \<Rightarrow> bool" where
  "machineInv m =
     ((disposed m \<or> pendingMiddleEmoji m = None \<or> debounceTimer m \<noteq> Idle) \<and>
      (if isArmed (softStallTimerM m)
       then softStallTimerM m = Armed (lastProgressAt m + STALL_SOFT_MS) () \<and>
            \<not> disposed m \<and> \<not> terminal m
       else True) \<and>
      (if isArmed (hardStallTimerM m)
       then hardStallTimerM m = Armed (lastProgressAt m + STALL_HARD_MS) () \<and>
            \<not> disposed m \<and> \<not> terminal m
       else True))"

text \<open>The state of the timers that a terminal call leaves, and that lasts.\<close>

definition settled :: "Machine \<Rightarrow> bool" where
  "settled m =
     (terminal m \<and> pendingMiddleEmoji m = None \<and> debounceTimer m = Idle \<and>
      softStallTimerM m = Idle \<and> hardStallTimerM m = Idle)"








text \<open>The errors of the calls that failed, in the order of the calls.\<close>

definition failedCalls :: "('c \<times> err option) list \<Rightarrow> err list" where
  "failedCalls calls = List.map_filter snd calls"

definition thrown :: "err option \<Rightarrow> err list" where
  "thrown r = (case r of None \<Rightarrow> [] | Some e \<Rightarrow> [e])"

text \<open>The event that runs the lane.\<close>

fun isLaneRuns :: "MachineEvent \<Rightarrow> bool" where
  "isLaneRuns (LaneRuns s throws) = True"
| "isLaneRuns ev = False"

text \<open>The parts of a controller and of a machine that only a work or a task writes.\<close>

definition recordsOf ::
    "Controller \<Rightarrow> (DiscordCall \<times> err option) list \<times> err list \<times> settle \<times> jsstring option" where
  "recordsOf c = (discordCalls c, ackFailures c, chainTail c, activeEmoji c)"

definition recordsOfM ::
    "Machine \<Rightarrow> (ReactionCall \<times> answer) list \<times> (string \<times> err) list \<times> settle
       \<times> (MachineTask \<times> Suspended) option" where
  "recordsOfM m = (reactionCalls m, reported m, laneTail m, running m)"

text \<open>Discord fails every call, or none; every call of a machine throws, or none.\<close>

definition failing :: "err \<Rightarrow> discord" where
  "failing e call = Some e"

definition failingM :: "err \<Rightarrow> throwing" where
  "failingM e call = Some e"

definition working :: discord where
  "working call = None"

definition noThrow :: throwing where
  "noThrow call = None"

text \<open>
  The failures among the calls of a machine, in the order of the calls: each with its error
  and whether the call threw on the spot (\<open>True\<close>) or its promise rejected (\<open>False\<close>).
\<close>

fun failure :: "answer \<Rightarrow> (bool \<times> err) list" where
  "failure Fulfilled = []"
| "failure (Rejected e) = [(False, e)]"
| "failure (Thrown e) = [(True, e)]"

definition failedCallsM :: "(ReactionCall \<times> answer) list \<Rightarrow> (bool \<times> err) list" where
  "failedCallsM calls = concat (map (\<lambda>(call, a). failure a) calls)"

text \<open>A message given to \<open>onError\<close>: its error, and whether the handler of the lane gave it.\<close>

definition byLane :: "string \<times> err \<Rightarrow> bool \<times> err" where
  "byLane message = (fst message = ''discord status reaction failed: '', snd message)"

text \<open>
  \<open>onError\<close>, when it is given, has been given one message for each failed call, in the
  order of the calls: by the handler of the lane for a call that threw, by the handler of
  the call for a promise that rejected. There are no messages when it is not given.
\<close>

definition reportsMatch :: "bool \<Rightarrow> Machine \<Rightarrow> bool" where
  "reportsMatch given m =
     (if given then map byLane (reported m) = failedCallsM (reactionCalls m)
      else reported m = [])"

text \<open>
  The same after a step of a task: when the step ends with the task throwing, the message
  of the handler of the lane is still to come.
\<close>

definition stepReported :: "bool \<Rightarrow> Machine \<times> taskStep \<Rightarrow> bool" where
  "stepReported given x =
     (case x of
        (m, Ends (Some e)) \<Rightarrow>
          reportsMatch given (onError given ''discord status reaction failed: '' e m)
      | (m, st) \<Rightarrow> reportsMatch given m)"

text \<open>The registry and the bridge, without the controllers and what is awaited.\<close>

definition registryOf ::
    "World \<Rightarrow> (jsstring \<rightharpoonup> nat) \<times> (nat \<rightharpoonup> DeferredDiscordStatusEntry) \<times> nat \<times> bool \<times> nat" where
  "registryOf w =
     (DEFERRED_DISCORD_STATUS_BY_RUN w, entries w, nextEntry w,
      deferredDiscordStatusBridgeReady w, listeners w)"

text \<open>
  Every identifier of the map leads to an entry object that exists, that was made before,
  and that carries that identifier.
\<close>

definition registryInv :: "World \<Rightarrow> bool" where
  "registryInv w =
     (\<forall>k ref. DEFERRED_DISCORD_STATUS_BY_RUN w k = Some ref \<longrightarrow>
        ref < nextEntry w \<and> (\<exists>e. entries w ref = Some e \<and> entryRunId e = k))"

text \<open>
  The run \<open>r\<close> is in the map with the entry \<open>ref\<close>, whose cleanup timer is armed for the
  time \<open>d\<close>.
\<close>

definition awaitsCleanup :: "jsstring \<Rightarrow> nat \<Rightarrow> nat \<Rightarrow> World \<Rightarrow> bool" where
  "awaitsCleanup r ref d w =
     (registryInv w \<and> DEFERRED_DISCORD_STATUS_BY_RUN w r = Some ref \<and>
      map_option retryCleanupTimer (entries w ref) = Some (Armed d ()))"

text \<open>
  The bridge has subscribed one listener once it is ready and none before, and it is ready
  as soon as the map holds an entry.
\<close>

definition bridgeInv :: "World \<Rightarrow> bool" where
  "bridgeInv w =
     (listeners w = (if deferredDiscordStatusBridgeReady w then 1 else 0) \<and>
      (\<forall>k ref. DEFERRED_DISCORD_STATUS_BY_RUN w k = Some ref \<longrightarrow>
         deferredDiscordStatusBridgeReady w))"

text \<open>The map of \<open>a\<close> is part of the map of \<open>b\<close>, and the bridge is the same.\<close>

definition shrinks :: "World \<Rightarrow> World \<Rightarrow> bool" where
  "shrinks a b =
     (deferredDiscordStatusBridgeReady a = deferredDiscordStatusBridgeReady b \<and>
      listeners a = listeners b \<and>
      (\<forall>k x. DEFERRED_DISCORD_STATUS_BY_RUN a k = Some x \<longrightarrow>
         DEFERRED_DISCORD_STATUS_BY_RUN b k = Some x))"


section \<open>Example states\<close>

text \<open>
  A machine that has started and is thinking, a controller that is queued, and a machine
  that has only started.
\<close>

definition exampleMachine :: Machine where
  "exampleMachine =
     machineRun True [(0, CallStart), (10, CallThinking)] (createDiscordReactionStatusMachine 0)"

definition exampleController :: Controller where
  "exampleController = setQueued fullParams 0 createDiscordStatusReactionController"



definition exampleStarted :: Machine where
  "exampleStarted = start 0 (createDiscordReactionStatusMachine 0)"

text \<open>
  A machine that has started and succeeded, every call fulfilled: the eyes are set at 1 and
  shown at 2; the task of \<open>finish\<close> removes them at 11, sets the check mark at 12 and ends
  at 13, when the hold timer is armed.
\<close>

definition succeededMachine :: Machine where
  "succeededMachine =
     machineRun True
       [(0, CallStart), (1, LaneRuns None noThrow), (2, LaneRuns None noThrow),
        (10, CallSucceed), (11, LaneRuns None noThrow), (12, LaneRuns None noThrow),
        (13, LaneRuns None noThrow)]
       (createDiscordReactionStatusMachine 0)"

text \<open>
  The same, but \<open>dispose\<close> is called at 12, while the task of \<open>finish\<close> waits for the
  removal of the eyes; the lane then runs to its end and the hold timer fires.
\<close>

definition disposedMeanwhile :: Machine where
  "disposedMeanwhile =
     machineRun True
       [(0, CallStart), (1, LaneRuns None noThrow), (2, LaneRuns None noThrow),
        (10, CallSucceed), (11, LaneRuns None noThrow), (12, CallDispose),
        (13, LaneRuns None noThrow), (14, LaneRuns None noThrow),
        (15, LaneRuns None noThrow), (16, LaneRuns None noThrow), (1514, ClearTimerFires)]
       (createDiscordReactionStatusMachine 0)"

text \<open>
  A run of a controller in which Discord fails the first call, and one of a machine in
  which the first call throws and the promise of the second rejects.
\<close>

definition failedRun :: Controller where
  "failedRun =
     controllerRun fullParams
       [(0, CallSetQueued), (1, ChainRuns (failing ''boom'')), (2, CallSetThinking),
        (200, PendingTimerFires), (201, ChainRuns working), (300, CallSetDone),
        (301, ChainRuns working)]
       createDiscordStatusReactionController"

definition failedRunM :: Machine where
  "failedRunM =
     machineRun True
       [(0, CallStart), (1, LaneRuns None (failingM ''boom'')), (2, CallSucceed),
        (3, LaneRuns None noThrow), (4, LaneRuns (Some ''late'') noThrow)]
       (createDiscordReactionStatusMachine 0)"

text \<open>A state of the module with one controller and the run \<open>run-a\<close> registered, and events.\<close>

definition entryA :: DeferredDiscordStatusEntry where
  "entryA =
     \<lparr>entryRunId = js '' run-a '', entryChannelId = js ''c1'', entryMessageId = js ''m1'',
      removeAckAfterReply = False, controllerRef = 0, onLifecycleStart = Some 0,
      retryCleanupTimer = Idle\<rparr>"

definition entryB :: DeferredDiscordStatusEntry where
  "entryB = entryA\<lparr>entryRunId := js ''run-b''\<rparr>"

definition entryBlank :: DeferredDiscordStatusEntry where
  "entryBlank = entryA\<lparr>entryRunId := js ''  ''\<rparr>"

definition exampleWorld :: World where
  "exampleWorld = worldRun [(0, NewController fullParams), (1, Register entryA)] initialWorld"

definition errorEvent :: AgentEvent where
  "errorEvent =
     \<lparr>evRunId = js ''run-a'', evStream = js ''lifecycle'', evPhase = Some (js ''error''),
      evName = None\<rparr>"

definition startEvent :: AgentEvent where
  "startEvent =
     \<lparr>evRunId = js ''run-a'', evStream = js ''lifecycle'', evPhase = Some (js ''start''),
      evName = None\<rparr>"

definition otherEvents :: "(nat \<times> WorldEvent) list" where
  "otherEvents = [(20, OnController 0 (ChainRuns working)), (30, Register entryB)]"


section \<open>Properties\<close>

subsection \<open>Strings\<close>

lemma dropWhile_id: "xs = [] \<or> \<not> P (hd xs) \<Longrightarrow> dropWhile P xs = xs"
  by (cases xs) auto

lemma trim_no_whitespace:
  assumes "list_all (\<lambda>c. \<not> isWhiteSpace c) s"
  shows "trim s = s"
proof -
  have a: "dropWhile isWhiteSpace s = s"
    using assms by (cases s) auto
  have "list_all (\<lambda>c. \<not> isWhiteSpace c) (rev s)"
    using assms by (simp add: list_all_iff)
  then have b: "dropWhile isWhiteSpace (rev s) = rev s"
    by (cases "rev s") auto
  show ?thesis
    by (simp add: trim_def a b)
qed

lemma isUuidChar_not_whitespace: "isUuidChar c \<Longrightarrow> \<not> isWhiteSpace c"
  by (auto simp: isUuidChar_def isWhiteSpace_def)

lemma trim_randomUUID: "isRandomUUID g \<Longrightarrow> trim g = g \<and> g \<noteq> []"
proof -
  assume g: "isRandomUUID g"
  then have "list_all (\<lambda>c. \<not> isWhiteSpace c) g"
    by (auto simp: isRandomUUID_def list_all_iff isUuidChar_not_whitespace)
  then have "trim g = g"
    by (rule trim_no_whitespace)
  moreover from g have "g \<noteq> []"
    by (auto simp: isRandomUUID_def)
  ultimately show ?thesis by simp
qed

lemma trim_idem: "trim (trim s) = trim s"
proof -
  let ?d = "dropWhile isWhiteSpace"
  have 1: "?d (rev (?d (rev (?d s)))) = rev (?d (rev (?d s)))" (is "?d ?t = ?t")
  proof (cases "?d (rev (?d s)) = []")
    case True
    show ?thesis unfolding True by simp
  next
    case False
    have ne: "?d s \<noteq> []"
    proof
      assume e: "?d s = []"
      have "?d (rev (?d s)) = []" unfolding e by simp
      with False show False by blast
    qed
    then have h: "\<not> isWhiteSpace (hd (?d s))"
      by (rule hd_dropWhile)
    have "hd ?t = last (?d (rev (?d s)))"
      using False by (simp add: hd_rev)
    also have "\<dots> = last (rev (?d s))"
      using False by (metis last_appendR takeWhile_dropWhile_id)
    also have "\<dots> = hd (?d s)"
      using ne by (simp add: last_rev)
    finally have "\<not> isWhiteSpace (hd ?t)"
      using h by simp
    then show ?thesis
      by (intro dropWhile_id) simp
  qed
  show ?thesis
    unfolding trim_def by (simp add: 1)
qed

subsection \<open>Run identity\<close>

text \<open>
  C4. \<open>resolveQueueOutcomeRunId\<close> returns the trimmed identifier of the run whenever it is
  not empty, and then leaves the run as it is; otherwise it returns the generated identifier
  and stores it in the run. Called twice on the same run (any two generated identifiers that
  \<open>crypto.randomUUID\<close> can return), it returns the same identifier both times, and the
  second call does not change the run.
\<close>

theorem resolveQueueOutcomeRunId_stable:
  "(\<forall>existing. runId run = Some existing \<and> trim existing \<noteq> [] \<longrightarrow>
      resolveQueueOutcomeRunId g1 run = (trim existing, run)) \<and>
   ((runId run = None \<or> (\<exists>existing. runId run = Some existing \<and> trim existing = [])) \<longrightarrow>
      resolveQueueOutcomeRunId g1 run = (g1, run\<lparr>runId := Some g1\<rparr>)) \<and>
   (isRandomUUID g1 \<longrightarrow>
      (let (r1, run1) = resolveQueueOutcomeRunId g1 run;
           (r2, run2) = resolveQueueOutcomeRunId g2 run1
       in r2 = r1 \<and> run2 = run1))"
proof (intro conjI allI impI)
  fix existing
  assume "runId run = Some existing \<and> trim existing \<noteq> []"
  then show "resolveQueueOutcomeRunId g1 run = (trim existing, run)"
    by (simp add: resolveQueueOutcomeRunId_def)
next
  assume "runId run = None \<or> (\<exists>existing. runId run = Some existing \<and> trim existing = [])"
  then show "resolveQueueOutcomeRunId g1 run = (g1, run\<lparr>runId := Some g1\<rparr>)"
    by (auto simp: resolveQueueOutcomeRunId_def)
next
  assume "isRandomUUID g1"
  then have g: "trim g1 = g1" "g1 \<noteq> []"
    using trim_randomUUID by auto
  show "let (r1, run1) = resolveQueueOutcomeRunId g1 run;
            (r2, run2) = resolveQueueOutcomeRunId g2 run1
        in r2 = r1 \<and> run2 = run1"
  proof (cases "runId run")
    case None
    then show ?thesis
      by (simp add: resolveQueueOutcomeRunId_def g)
  next
    case (Some existing)
    show ?thesis
    proof (cases "trim existing = []")
      case True
      with Some show ?thesis
        by (simp add: resolveQueueOutcomeRunId_def g)
    next
      case False
      with Some show ?thesis
        by (simp add: resolveQueueOutcomeRunId_def trim_idem)
    qed
  qed
qed

lemma exampleUUID_random: "isRandomUUID exampleUUID"
  by (simp add: isRandomUUID_def exampleUUID_def js_def isUuidChar_def)

theorem resolveQueueOutcomeRunId_stable_witness:
  "resolveQueueOutcomeRunId exampleUUID \<lparr>runId = Some (js '' run-1 ''), onQueueOutcome = None\<rparr>
     = (js ''run-1'', \<lparr>runId = Some (js '' run-1 ''), onQueueOutcome = None\<rparr>) \<and>
   resolveQueueOutcomeRunId exampleUUID \<lparr>runId = Some (js ''  ''), onQueueOutcome = None\<rparr>
     = (exampleUUID, \<lparr>runId = Some exampleUUID, onQueueOutcome = None\<rparr>) \<and>
   isRandomUUID exampleUUID \<and>
   (let (r1, run1) = resolveQueueOutcomeRunId exampleUUID \<lparr>runId = None, onQueueOutcome = None\<rparr>;
        (r2, run2) = resolveQueueOutcomeRunId (js ''other'') run1
    in r2 = r1 \<and> run2 = run1)"
proof -
  have t1: "trim (js '' run-1 '') = js ''run-1''" "js ''run-1'' \<noteq> []"
    by (simp_all add: trim_def js_def isWhiteSpace_def)
  have t2: "trim (js ''  '') = []"
    by (simp add: trim_def js_def isWhiteSpace_def)
  note a = resolveQueueOutcomeRunId_stable
    [of "\<lparr>runId = Some (js '' run-1 ''), onQueueOutcome = None\<rparr>" exampleUUID "js ''other''"]
  note b = resolveQueueOutcomeRunId_stable
    [of "\<lparr>runId = Some (js ''  ''), onQueueOutcome = None\<rparr>" exampleUUID "js ''other''"]
  note c = resolveQueueOutcomeRunId_stable
    [of "\<lparr>runId = None, onQueueOutcome = None\<rparr>" exampleUUID "js ''other''"]
  from a t1 have 1: "resolveQueueOutcomeRunId exampleUUID
      \<lparr>runId = Some (js '' run-1 ''), onQueueOutcome = None\<rparr>
     = (js ''run-1'', \<lparr>runId = Some (js '' run-1 ''), onQueueOutcome = None\<rparr>)"
    by simp
  from b t2 have 2: "resolveQueueOutcomeRunId exampleUUID
      \<lparr>runId = Some (js ''  ''), onQueueOutcome = None\<rparr>
     = (exampleUUID, \<lparr>runId = Some exampleUUID, onQueueOutcome = None\<rparr>)"
    by simp
  from c exampleUUID_random have 3:
    "let (r1, run1) = resolveQueueOutcomeRunId exampleUUID \<lparr>runId = None, onQueueOutcome = None\<rparr>;
         (r2, run2) = resolveQueueOutcomeRunId (js ''other'') run1
     in r2 = r1 \<and> run2 = run1"
    by blast
  from 1 2 3 exampleUUID_random show ?thesis by blast
qed

subsection \<open>Outcome callbacks\<close>

text \<open>
  C5. \<open>emitFollowupQueueOutcome\<close> returns normally whatever the callback does, and leaves
  no unhandled promise rejection: a run without a callback is returned as it is; a callback
  that throws, and a callback whose promise rejects, both end in a normal return.
\<close>

theorem emitFollowupQueueOutcome_swallows:
  "(\<exists>run'. emitFollowupQueueOutcome g run status reason = Inr (run', [])) \<and>
   (onQueueOutcome run = None \<longrightarrow> emitFollowupQueueOutcome g run status reason = Inr (run, [])) \<and>
   (\<forall>h e. onQueueOutcome run = Some h \<and>
      h \<lparr>outcomeRunId = fst (resolveQueueOutcomeRunId g run), outcomeStatus = status,
         outcomeReason = reason\<rparr> \<in> {Throws e, ReturnsPromise (Rejects e)} \<longrightarrow>
      emitFollowupQueueOutcome g run status reason = Inr (snd (resolveQueueOutcomeRunId g run), []))"
  by (auto simp: emitFollowupQueueOutcome_def catchIgnore_def unhandledRejections_def
      split: option.splits prod.splits handler_result.splits settle.splits)

theorem emitFollowupQueueOutcome_swallows_witness:
  "emitFollowupQueueOutcome exampleUUID \<lparr>runId = None, onQueueOutcome = None\<rparr>
      OutcomeDropped (js ''cap'') = Inr (\<lparr>runId = None, onQueueOutcome = None\<rparr>, []) \<and>
   emitFollowupQueueOutcome exampleUUID
      \<lparr>runId = None, onQueueOutcome = Some (\<lambda>out. Throws ''boom'')\<rparr> OutcomeDropped (js ''cap'')
     = Inr (\<lparr>runId = Some exampleUUID, onQueueOutcome = Some (\<lambda>out. Throws ''boom'')\<rparr>, []) \<and>
   emitFollowupQueueOutcome exampleUUID
      \<lparr>runId = None, onQueueOutcome = Some (\<lambda>out. ReturnsPromise (Rejects ''boom''))\<rparr>
      OutcomeDropped (js ''cap'')
     = Inr (\<lparr>runId = Some exampleUUID,
             onQueueOutcome = Some (\<lambda>out. ReturnsPromise (Rejects ''boom''))\<rparr>, [])"
proof -
  note a = emitFollowupQueueOutcome_swallows
    [of exampleUUID "\<lparr>runId = None, onQueueOutcome = None\<rparr>" OutcomeDropped "js ''cap''"]
  note b = emitFollowupQueueOutcome_swallows
    [of exampleUUID "\<lparr>runId = None, onQueueOutcome = Some (\<lambda>out. Throws ''boom'')\<rparr>"
        OutcomeDropped "js ''cap''"]
  note c = emitFollowupQueueOutcome_swallows
    [of exampleUUID "\<lparr>runId = None, onQueueOutcome = Some (\<lambda>out. ReturnsPromise (Rejects ''boom''))\<rparr>"
        OutcomeDropped "js ''cap''"]
  have r: "\<And>h. resolveQueueOutcomeRunId exampleUUID \<lparr>runId = None, onQueueOutcome = h\<rparr>
      = (exampleUUID, \<lparr>runId = Some exampleUUID, onQueueOutcome = h\<rparr>)"
    by (simp add: resolveQueueOutcomeRunId_def)
  from a have 1: "emitFollowupQueueOutcome exampleUUID \<lparr>runId = None, onQueueOutcome = None\<rparr>
      OutcomeDropped (js ''cap'') = Inr (\<lparr>runId = None, onQueueOutcome = None\<rparr>, [])"
    by simp
  from b have 2: "emitFollowupQueueOutcome exampleUUID
      \<lparr>runId = None, onQueueOutcome = Some (\<lambda>out. Throws ''boom'')\<rparr> OutcomeDropped (js ''cap'')
     = Inr (\<lparr>runId = Some exampleUUID, onQueueOutcome = Some (\<lambda>out. Throws ''boom'')\<rparr>, [])"
    by (simp add: r)
  from c have 3: "emitFollowupQueueOutcome exampleUUID
      \<lparr>runId = None, onQueueOutcome = Some (\<lambda>out. ReturnsPromise (Rejects ''boom''))\<rparr>
      OutcomeDropped (js ''cap'')
     = Inr (\<lparr>runId = Some exampleUUID,
             onQueueOutcome = Some (\<lambda>out. ReturnsPromise (Rejects ''boom''))\<rparr>, [])"
    by (simp add: r)
  from 1 2 3 show ?thesis by blast
qed

subsection \<open>Schema-refresh retry\<close>

lemma afterFirst_unknown_tool:
  "isUnknownToolMessage (js ''unknown tool: plugin_search'')"
  "\<not> isUnknownToolMessage (js ''transport disconnected'')"
  by (simp_all add: isUnknownToolMessage_def js_def)

lemma assistantNotAvailable_matches:
  "isToolNotAvailableMessage
     (js ''tool '' @ [0x22] @ js ''plugin_search'' @ [0x22] @ js '' is not available'')"
  by (simp add: isToolNotAvailableMessage_def js_def)

text \<open>
  C2. The retry controller, for any two message patterns and any attempt function: the first
  attempt is made without schema refresh; a second attempt is made exactly when the first is
  classified as an unknown-tool failure, and it is made with schema refresh; there is never a
  third. A first attempt whose top-level error is not an unknown-tool message is not retried
  and its error is thrown, whatever the assistant text is. When the retry fails, its error
  is thrown.
\<close>

theorem runWithSchemaRefresh_single_retry:
  "(attempts (runWithSchemaRefresh u n f) = [False] \<or>
    attempts (runWithSchemaRefresh u n f) = [False, True]) \<and>
   (attempts (runWithSchemaRefresh u n f) = [False, True] \<longleftrightarrow>
      classifyUnknownTool u n (f 0 False) \<noteq> None) \<and>
   (classifyUnknownTool u n (f 0 False) \<noteq> None \<longleftrightarrow>
      (\<exists>msg. promptError (f 0 False) = Some msg \<and> u msg) \<or>
      (promptError (f 0 False) = None \<and>
       (\<exists>la text. lastAssistant (f 0 False) = Some la \<and> stopReason la = js ''error'' \<and>
          errorMessage la = Some text \<and> n text))) \<and>
   (\<forall>msg. promptError (f 0 False) = Some msg \<and> \<not> u msg \<longrightarrow>
      attempts (runWithSchemaRefresh u n f) = [False] \<and>
      outcome (runWithSchemaRefresh u n f) = Inl msg) \<and>
   (\<forall>msg. classifyUnknownTool u n (f 0 False) \<noteq> None \<and> promptError (f 1 True) = Some msg \<longrightarrow>
      attempts (runWithSchemaRefresh u n f) = [False, True] \<and>
      outcome (runWithSchemaRefresh u n f) = Inl msg) \<and>
   (classifyUnknownTool u n (f 0 False) \<noteq> None \<and> promptError (f 1 True) = None \<longrightarrow>
      outcome (runWithSchemaRefresh u n f) = Inr (f 1 True))"
proof -
  have cls: "classifyUnknownTool u n (f 0 False) \<noteq> None \<longleftrightarrow>
      (\<exists>msg. promptError (f 0 False) = Some msg \<and> u msg) \<or>
      (promptError (f 0 False) = None \<and>
       (\<exists>la text. lastAssistant (f 0 False) = Some la \<and> stopReason la = js ''error'' \<and>
          errorMessage la = Some text \<and> n text))"
    by (auto simp: classifyUnknownTool_def split: option.splits)
  show ?thesis
  proof (cases "classifyUnknownTool u n (f 0 False)")
    case None
    have "\<And>msg. promptError (f 0 False) = Some msg \<Longrightarrow> outcome (runWithSchemaRefresh u n f) = Inl msg"
      using None by (simp add: runWithSchemaRefresh_def propagate_def)
    moreover have "attempts (runWithSchemaRefresh u n f) = [False]"
      using None by (simp add: runWithSchemaRefresh_def)
    ultimately show ?thesis
      using None cls by auto
  next
    case (Some source)
    have a: "attempts (runWithSchemaRefresh u n f) = [False, True]"
      using Some by (simp add: runWithSchemaRefresh_def)
    have o: "outcome (runWithSchemaRefresh u n f) = propagate (f 1 True)"
      using Some by (simp add: runWithSchemaRefresh_def)
    have nu: "\<And>msg. promptError (f 0 False) = Some msg \<Longrightarrow> u msg"
      using Some by (auto simp: classifyUnknownTool_def split: option.splits if_splits)
    have p1: "\<And>msg. promptError (f 1 True) = Some msg \<Longrightarrow> propagate (f 1 True) = Inl msg"
      by (simp add: propagate_def)
    have p2: "promptError (f 1 True) = None \<Longrightarrow> propagate (f 1 True) = Inr (f 1 True)"
      by (simp add: propagate_def)
    show ?thesis
      using Some cls a o nu p1 p2 by auto
  qed
qed

text \<open>The three scenarios of the test file, run on the model with the patterns above.\<close>

theorem runWithSchemaRefresh_single_retry_witness:
  "attempts (runWithSchemaRefresh isUnknownToolMessage isToolNotAvailableMessage
      (\<lambda>k refresh. if k = 0 then unknownToolFailure else cleanAttempt)) = [False, True] \<and>
   outcome (runWithSchemaRefresh isUnknownToolMessage isToolNotAvailableMessage
      (\<lambda>k refresh. if k = 0 then unknownToolFailure else cleanAttempt)) = Inr cleanAttempt \<and>
   attempts (runWithSchemaRefresh isUnknownToolMessage isToolNotAvailableMessage
      (\<lambda>k refresh. transportFailure)) = [False] \<and>
   outcome (runWithSchemaRefresh isUnknownToolMessage isToolNotAvailableMessage
      (\<lambda>k refresh. transportFailure)) = Inl (js ''transport disconnected'') \<and>
   attempts (runWithSchemaRefresh isUnknownToolMessage isToolNotAvailableMessage
      (\<lambda>k refresh. unknownToolFailure)) = [False, True] \<and>
   outcome (runWithSchemaRefresh isUnknownToolMessage isToolNotAvailableMessage
      (\<lambda>k refresh. unknownToolFailure)) = Inl (js ''unknown tool: plugin_search'')"
proof -
  let ?u = isUnknownToolMessage and ?n = isToolNotAvailableMessage
  have c: "classifyUnknownTool ?u ?n unknownToolFailure \<noteq> None"
    by (simp add: classifyUnknownTool_def unknownToolFailure_def afterFirst_unknown_tool)
  have pe: "promptError unknownToolFailure = Some (js ''unknown tool: plugin_search'')"
    "promptError cleanAttempt = None"
    "promptError transportFailure = Some (js ''transport disconnected'')"
    by (simp_all add: unknownToolFailure_def cleanAttempt_def transportFailure_def)
  note a = runWithSchemaRefresh_single_retry
    [of ?u ?n "\<lambda>k refresh. if k = 0 then unknownToolFailure else cleanAttempt"]
  note b = runWithSchemaRefresh_single_retry [of ?u ?n "\<lambda>k refresh. transportFailure"]
  note d = runWithSchemaRefresh_single_retry [of ?u ?n "\<lambda>k refresh. unknownToolFailure"]
  from a c pe have 1:
    "attempts (runWithSchemaRefresh ?u ?n
        (\<lambda>k refresh. if k = 0 then unknownToolFailure else cleanAttempt)) = [False, True]"
    "outcome (runWithSchemaRefresh ?u ?n
        (\<lambda>k refresh. if k = 0 then unknownToolFailure else cleanAttempt)) = Inr cleanAttempt"
    by simp_all
  from b pe afterFirst_unknown_tool have 2:
    "attempts (runWithSchemaRefresh ?u ?n (\<lambda>k refresh. transportFailure)) = [False]"
    "outcome (runWithSchemaRefresh ?u ?n (\<lambda>k refresh. transportFailure))
       = Inl (js ''transport disconnected'')"
    by simp_all
  from d c pe have 3:
    "attempts (runWithSchemaRefresh ?u ?n (\<lambda>k refresh. unknownToolFailure)) = [False, True]"
    "outcome (runWithSchemaRefresh ?u ?n (\<lambda>k refresh. unknownToolFailure))
       = Inl (js ''unknown tool: plugin_search'')"
    by simp_all
  from 1 2 3 show ?thesis by blast
qed

subsection \<open>Status reaction controller\<close>

subsection \<open>What the parts of the controller leave alone\<close>

lemmas controller_defs =
  createDiscordStatusReactionController_def fullParams_def transitionsAllowed_def
  hasReachedActivePhase_def transitionSemanticPhase_def enqueue_def clearStallTimers_def
  clearPendingDebounce_def applyEmoji_def requestEmoji_def pendingTimerFires_def
  scheduleStallTimers_def softStallTimerFires_def hardStallTimerFires_def setPhase_def
  setWaiting_def setTerminal_def setRetryableError_def clear_def restoreInitial_def
  setQueued_def setThinking_def setTool_def setDone_def setError_def logAckFailure_def
  callDiscord_def applyEmojiWork_def chainRuns_def thenWork_def catchLog_def
  DISCORD_STATUS_THINKING_EMOJI_def DISCORD_STATUS_TOOL_EMOJI_def
  DISCORD_STATUS_CODING_EMOJI_def DISCORD_STATUS_WEB_EMOJI_def DISCORD_STATUS_DONE_EMOJI_def
  DISCORD_STATUS_ERROR_EMOJI_def DISCORD_STATUS_STALL_SOFT_EMOJI_def
  DISCORD_STATUS_STALL_HARD_EMOJI_def DISCORD_STATUS_DEBOUNCE_MS_def
  DISCORD_STATUS_STALL_SOFT_MS_def DISCORD_STATUS_STALL_HARD_MS_def Let_def

lemma requestEmoji_fields [simp]:
  "semanticPhase (requestEmoji p now e i a c) = semanticPhase c"
  "finished (requestEmoji p now e i a c) = finished c"
  "softStallTimer (requestEmoji p now e i a c) = softStallTimer c"
  "hardStallTimer (requestEmoji p now e i a c) = hardStallTimer c"
  "discordCalls (requestEmoji p now e i a c) = discordCalls c"
  "ackFailures (requestEmoji p now e i a c) = ackFailures c"
  "chainTail (requestEmoji p now e i a c) = chainTail c"
  "activeEmoji (requestEmoji p now e i a c) = activeEmoji c"
  by (simp_all add: requestEmoji_def applyEmoji_def enqueue_def clearPendingDebounce_def)

lemma scheduleStallTimers_fields [simp]:
  "semanticPhase (scheduleStallTimers p now c) = semanticPhase c"
  "finished (scheduleStallTimers p now c) = finished c"
  "discordCalls (scheduleStallTimers p now c) = discordCalls c"
  "ackFailures (scheduleStallTimers p now c) = ackFailures c"
  "chainTail (scheduleStallTimers p now c) = chainTail c"
  "chain (scheduleStallTimers p now c) = chain c"
  "activeEmoji (scheduleStallTimers p now c) = activeEmoji c"
  "pendingTimer (scheduleStallTimers p now c) = pendingTimer c"
  "pendingEmoji (scheduleStallTimers p now c) = pendingEmoji c"
  by (simp_all add: scheduleStallTimers_def clearStallTimers_def)

lemma clearStallTimers_fields [simp]:
  "semanticPhase (clearStallTimers c) = semanticPhase c"
  "finished (clearStallTimers c) = finished c"
  "discordCalls (clearStallTimers c) = discordCalls c"
  "ackFailures (clearStallTimers c) = ackFailures c"
  "chainTail (clearStallTimers c) = chainTail c"
  "chain (clearStallTimers c) = chain c"
  "activeEmoji (clearStallTimers c) = activeEmoji c"
  "pendingTimer (clearStallTimers c) = pendingTimer c"
  "pendingEmoji (clearStallTimers c) = pendingEmoji c"
  "softStallTimer (clearStallTimers c) = Idle"
  "hardStallTimer (clearStallTimers c) = Idle"
  by (simp_all add: clearStallTimers_def)

lemma clearPendingDebounce_fields [simp]:
  "semanticPhase (clearPendingDebounce c) = semanticPhase c"
  "finished (clearPendingDebounce c) = finished c"
  "discordCalls (clearPendingDebounce c) = discordCalls c"
  "ackFailures (clearPendingDebounce c) = ackFailures c"
  "chainTail (clearPendingDebounce c) = chainTail c"
  "chain (clearPendingDebounce c) = chain c"
  "activeEmoji (clearPendingDebounce c) = activeEmoji c"
  "softStallTimer (clearPendingDebounce c) = softStallTimer c"
  "hardStallTimer (clearPendingDebounce c) = hardStallTimer c"
  "pendingTimer (clearPendingDebounce c) = Idle"
  "pendingEmoji (clearPendingDebounce c) = None"
  by (simp_all add: clearPendingDebounce_def)

lemma enqueue_fields [simp]:
  "semanticPhase (enqueue w c) = semanticPhase c"
  "finished (enqueue w c) = finished c"
  "discordCalls (enqueue w c) = discordCalls c"
  "ackFailures (enqueue w c) = ackFailures c"
  "chainTail (enqueue w c) = chainTail c"
  "chain (enqueue w c) = chain c @ [w]"
  "activeEmoji (enqueue w c) = activeEmoji c"
  "softStallTimer (enqueue w c) = softStallTimer c"
  "hardStallTimer (enqueue w c) = hardStallTimer c"
  "pendingTimer (enqueue w c) = pendingTimer c"
  "pendingEmoji (enqueue w c) = pendingEmoji c"
  by (simp_all add: enqueue_def)

lemma transitionSemanticPhase_fields [simp]:
  "finished (snd (transitionSemanticPhase ph c)) = finished c"
  "discordCalls (snd (transitionSemanticPhase ph c)) = discordCalls c"
  "ackFailures (snd (transitionSemanticPhase ph c)) = ackFailures c"
  "chainTail (snd (transitionSemanticPhase ph c)) = chainTail c"
  "chain (snd (transitionSemanticPhase ph c)) = chain c"
  "activeEmoji (snd (transitionSemanticPhase ph c)) = activeEmoji c"
  "softStallTimer (snd (transitionSemanticPhase ph c)) = softStallTimer c"
  "hardStallTimer (snd (transitionSemanticPhase ph c)) = hardStallTimer c"
  "pendingTimer (snd (transitionSemanticPhase ph c)) = pendingTimer c"
  "pendingEmoji (snd (transitionSemanticPhase ph c)) = pendingEmoji c"
  by (simp_all add: transitionSemanticPhase_def)

lemma transitionSemanticPhase_rejected:
  "\<not> fst (transitionSemanticPhase ph c) \<Longrightarrow> snd (transitionSemanticPhase ph c) = c"
  by (simp add: transitionSemanticPhase_def split: if_splits bool.splits)


lemma transitionSemanticPhase_accepted:
  "fst (transitionSemanticPhase ph c) \<Longrightarrow> semanticPhase (snd (transitionSemanticPhase ph c)) = ph"
  by (simp add: transitionSemanticPhase_def split: if_splits bool.splits)


lemma callDiscord_fields [simp]:
  "semanticPhase (snd (callDiscord d call c)) = semanticPhase c"
  "finished (snd (callDiscord d call c)) = finished c"
  "chainTail (snd (callDiscord d call c)) = chainTail c"
  "chain (snd (callDiscord d call c)) = chain c"
  "softStallTimer (snd (callDiscord d call c)) = softStallTimer c"
  "hardStallTimer (snd (callDiscord d call c)) = hardStallTimer c"
  "pendingTimer (snd (callDiscord d call c)) = pendingTimer c"
  "pendingEmoji (snd (callDiscord d call c)) = pendingEmoji c"
  "ackFailures (snd (callDiscord d call c)) = ackFailures c"
  "activeEmoji (snd (callDiscord d call c)) = activeEmoji c"
  "fst (callDiscord d call c) = d call"
  "discordCalls (snd (callDiscord d call c)) = discordCalls c @ [(call, d call)]"
  by (simp_all add: callDiscord_def)

lemma logAckFailure_fields [simp]:
  "semanticPhase (logAckFailure e c) = semanticPhase c"
  "finished (logAckFailure e c) = finished c"
  "chainTail (logAckFailure e c) = chainTail c"
  "chain (logAckFailure e c) = chain c"
  "softStallTimer (logAckFailure e c) = softStallTimer c"
  "hardStallTimer (logAckFailure e c) = hardStallTimer c"
  "pendingTimer (logAckFailure e c) = pendingTimer c"
  "pendingEmoji (logAckFailure e c) = pendingEmoji c"
  "discordCalls (logAckFailure e c) = discordCalls c"
  "activeEmoji (logAckFailure e c) = activeEmoji c"
  "ackFailures (logAckFailure e c) = ackFailures c @ [e]"
  by (simp_all add: logAckFailure_def)

lemma timersOf_simps [simp]:
  "timersOf (snd (callDiscord d call c)) = timersOf c"
  "timersOf (logAckFailure e c) = timersOf c"
  "timersOf (c\<lparr>activeEmoji := a\<rparr>) = timersOf c"
  by (simp_all add: timersOf_def callDiscord_def logAckFailure_def)

lemma removeCandidates_timersOf: "timersOf (removeCandidates p d es c) = timersOf c"
proof (induction es arbitrary: c)
  case Nil
  then show ?case by simp
next
  case (Cons e es)
  have "timersOf (snd (callDiscord d (RemoveReaction (channelId p) (messageId p) e) c)) = timersOf c"
    by simp
  then show ?case
    using Cons.IH by (auto split: prod.splits option.splits simp: prod_eq_iff)
qed

lemma timersOfD:
  "timersOf a = timersOf b \<Longrightarrow>
   semanticPhase a = semanticPhase b \<and> finished a = finished b \<and>
   softStallTimer a = softStallTimer b \<and> hardStallTimer a = hardStallTimer b \<and>
   pendingTimer a = pendingTimer b \<and> pendingEmoji a = pendingEmoji b \<and>
   chain a = chain b \<and> chainTail a = chainTail b"
  by (simp add: timersOf_def)

lemma applyEmojiWork_timersOf: "timersOf (fst (applyEmojiWork p d e c)) = timersOf c"
  by (simp add: applyEmojiWork_def callDiscord_def timersOf_def Let_def split: option.splits)

lemma execWork_timersOf: "timersOf (fst (execWork p d w c)) = timersOf c"
proof (cases w)
  case (ApplyEmojiWork e)
  then show ?thesis by (simp add: applyEmojiWork_timersOf)
next
  case ClearWork
  then show ?thesis by (simp add: clearWork_def removeCandidates_timersOf)
qed

lemma chainRuns_Nil: "chain c = [] \<Longrightarrow> chainRuns p d c = c"
  by (simp add: chainRuns_def)

lemma chainRuns_Cons:
  assumes "chain c = w # ws"
  shows "semanticPhase (chainRuns p d c) = semanticPhase c"
    and "finished (chainRuns p d c) = finished c"
    and "softStallTimer (chainRuns p d c) = softStallTimer c"
    and "hardStallTimer (chainRuns p d c) = hardStallTimer c"
    and "pendingTimer (chainRuns p d c) = pendingTimer c"
    and "pendingEmoji (chainRuns p d c) = pendingEmoji c"
    and "chain (chainRuns p d c) = ws"
    and "chainTail (chainRuns p d c) = Resolves"
proof -
  let ?c0 = "c\<lparr>chain := ws\<rparr>"
  have t: "timersOf (fst (execWork p d w ?c0)) = timersOf ?c0"
    by (rule execWork_timersOf)
  note f = timersOfD [OF t]
  have r: "chainRuns p d c =
      (let (c1, link) = catchLog (thenWork (chainTail c) (execWork p d w) ?c0)
       in c1\<lparr>chainTail := link\<rparr>)"
    using assms by (simp add: chainRuns_def)
  show "semanticPhase (chainRuns p d c) = semanticPhase c"
    and "finished (chainRuns p d c) = finished c"
    and "softStallTimer (chainRuns p d c) = softStallTimer c"
    and "hardStallTimer (chainRuns p d c) = hardStallTimer c"
    and "pendingTimer (chainRuns p d c) = pendingTimer c"
    and "pendingEmoji (chainRuns p d c) = pendingEmoji c"
    and "chain (chainRuns p d c) = ws"
    and "chainTail (chainRuns p d c) = Resolves"
    using f unfolding r
    by (cases "execWork p d w ?c0"; cases "chainTail c";
        auto simp: catchLog_def thenWork_def split: option.splits)+
qed


subsection \<open>The semantic phase never goes back\<close>




















subsection \<open>Reaction status machine: what a step of the lane leaves alone\<close>

lemma coreOfD:
  "coreOf a = coreOf b \<Longrightarrow>
   pendingMiddleEmoji a = pendingMiddleEmoji b \<and> lastProgressAt a = lastProgressAt b \<and>
   disposed a = disposed b \<and> terminal a = terminal b \<and> debounceTimer a = debounceTimer b \<and>
   softStallTimerM a = softStallTimerM b \<and> hardStallTimerM a = hardStallTimerM b \<and>
   lane a = lane b"
  by (simp add: coreOf_def)

lemma coreOf_simps [simp]:
  "coreOf (onError given text e m) = coreOf m"
  "coreOf (recordCall call a m) = coreOf m"
  "coreOf (m\<lparr>currentEmoji := x\<rparr>) = coreOf m"
  "coreOf (m\<lparr>running := y\<rparr>) = coreOf m"
  "coreOf (m\<lparr>laneTail := l\<rparr>) = coreOf m"
  "coreOf (m\<lparr>clearTimer := t\<rparr>) = coreOf m"
  by (simp_all add: coreOf_def onError_def recordCall_def)

lemma callSettles_coreOf [simp]: "coreOf (callSettles given s call text m) = coreOf m"
  by (cases s) (simp_all add: callSettles_def)

lemma makeCall_coreOf [simp]: "coreOf (fst (makeCall throws call wait m)) = coreOf m"
  by (cases "throws call") (simp_all add: makeCall_def)

lemma setEmojiImmediate_coreOf [simp]:
  "coreOf (fst (setEmojiImmediate throws emoji m)) = coreOf m"
  by (cases "currentEmoji m") (simp_all add: setEmojiImmediate_def)

lemma startTask_coreOf [simp]: "coreOf (fst (startTask throws task m)) = coreOf m"
  by (cases task) simp_all

lemma resumeTask_coreOf [simp]: "coreOf (fst (resumeTask given s throws wait m)) = coreOf m"
  by (cases wait) simp_all

lemma afterTask_coreOf [simp]: "coreOf (afterTask now task link m) = coreOf m"
  by (cases task; cases link) simp_all

lemma linkSettles_coreOf [simp]: "coreOf (linkSettles given now task res m) = coreOf m"
  by (cases res) (simp_all add: linkSettles_def catchReport_def)

lemma taskStepped_coreOf [simp]: "coreOf (taskStepped given now task x) = coreOf (fst x)"
proof (cases x)
  case (Pair m st)
  then show ?thesis by (cases st) simp_all
qed

lemma laneRuns_coreOf:
  "coreOf (laneRuns given s throws now m) = coreOf m \<or>
   running m = None \<and> lane m \<noteq> [] \<and>
     coreOf (laneRuns given s throws now m) = coreOf (m\<lparr>lane := tl (lane m)\<rparr>)"
proof (cases "running m")
  case (Some x)
  obtain task wait where x: "x = (task, wait)" by (cases x)
  show ?thesis
    by (simp add: laneRuns_def Some x)
next
  case None
  show ?thesis
  proof (cases "lane m")
    case Nil
    then show ?thesis by (simp add: laneRuns_def None)
  next
    case (Cons task rest)
    then show ?thesis
      by (cases "laneTail m") (simp_all add: laneRuns_def None)
  qed
qed

lemma laneRuns_keeps:
  "pendingMiddleEmoji (laneRuns given s throws now m) = pendingMiddleEmoji m"
  "lastProgressAt (laneRuns given s throws now m) = lastProgressAt m"
  "disposed (laneRuns given s throws now m) = disposed m"
  "terminal (laneRuns given s throws now m) = terminal m"
  "debounceTimer (laneRuns given s throws now m) = debounceTimer m"
  "softStallTimerM (laneRuns given s throws now m) = softStallTimerM m"
  "hardStallTimerM (laneRuns given s throws now m) = hardStallTimerM m"
proof -
  have u: "\<And>l. coreOf (m\<lparr>lane := l\<rparr>) = coreOf (m\<lparr>lane := l\<rparr>)" by simp
  have k: "pendingMiddleEmoji (laneRuns given s throws now m) = pendingMiddleEmoji m \<and>
      lastProgressAt (laneRuns given s throws now m) = lastProgressAt m \<and>
      disposed (laneRuns given s throws now m) = disposed m \<and>
      terminal (laneRuns given s throws now m) = terminal m \<and>
      debounceTimer (laneRuns given s throws now m) = debounceTimer m \<and>
      softStallTimerM (laneRuns given s throws now m) = softStallTimerM m \<and>
      hardStallTimerM (laneRuns given s throws now m) = hardStallTimerM m"
    using laneRuns_coreOf [of given s throws now m]
    by (auto dest!: coreOfD)
  from k show "pendingMiddleEmoji (laneRuns given s throws now m) = pendingMiddleEmoji m"
    "lastProgressAt (laneRuns given s throws now m) = lastProgressAt m"
    "disposed (laneRuns given s throws now m) = disposed m"
    "terminal (laneRuns given s throws now m) = terminal m"
    "debounceTimer (laneRuns given s throws now m) = debounceTimer m"
    "softStallTimerM (laneRuns given s throws now m) = softStallTimerM m"
    "hardStallTimerM (laneRuns given s throws now m) = hardStallTimerM m"
    by simp_all
qed

lemma laneRuns_lane:
  "lane (laneRuns given s throws now m) = lane m \<or>
   lane (laneRuns given s throws now m) = tl (lane m)"
  using laneRuns_coreOf [of given s throws now m] by (auto dest!: coreOfD)

subsection \<open>Reaction status machine: what holds of every machine\<close>

lemma stallDeadline_now [simp]: "stallDeadline now now w = now + w"
  by (simp add: stallDeadline_def)

lemma machineInv_create: "machineInv (createDiscordReactionStatusMachine now)"
  by (simp add: machineInv_def createDiscordReactionStatusMachine_def)

lemma machineInv_markProgress: "machineInv m \<Longrightarrow> machineInv (markProgress now m)"
  by (auto simp: machineInv_def markProgress_def scheduleStallChecks_def split: if_splits)

lemma machineInv_scheduleMiddleState:
  "machineInv m \<Longrightarrow> machineInv (scheduleMiddleState now e m)"
  by (auto simp: machineInv_def scheduleMiddleState_def split: if_splits)

lemma machineInv_enqueueM: "machineInv m \<Longrightarrow> machineInv (enqueueM t m)"
  by (auto simp: machineInv_def enqueueM_def split: if_splits)

lemma machineInv_finish: "machineInv m \<Longrightarrow> machineInv (finish e h m)"
  by (auto simp: machineInv_def finish_def enqueueM_def Let_def split: if_splits)

lemma machineInv_dispose: "machineInv m \<Longrightarrow> machineInv (dispose m)"
  by (auto simp: machineInv_def dispose_def enqueueM_def clearTimers_def Let_def
      split: if_splits option.splits)

lemma machineInv_laneRuns:
  assumes "machineInv m"
  shows "machineInv (laneRuns given s throws now m)"
  using assms unfolding machineInv_def by (simp add: laneRuns_keeps)

lemma machineInv_step:
  assumes "machineInv m"
  shows "machineInv (machineStep given (now, ev) m)"
proof (cases ev)
  case (LaneRuns s throws)
  then show ?thesis using assms by (simp add: machineInv_laneRuns)
next
  case CallStart
  then show ?thesis
    using assms by (simp add: start_def machineInv_enqueueM machineInv_markProgress)
next
  case CallThinking
  then show ?thesis
    using assms by (simp add: thinking_def machineInv_scheduleMiddleState machineInv_markProgress)
next
  case (CallTool x)
  then show ?thesis
    using assms by (simp add: tool_def machineInv_scheduleMiddleState machineInv_markProgress)
next
  case CallProgress
  then show ?thesis
    using assms by (simp add: progress_def machineInv_markProgress)
next
  case CallSucceed
  then show ?thesis using assms by (simp add: succeed_def machineInv_finish)
next
  case CallFail
  then show ?thesis using assms by (simp add: fail_def machineInv_finish)
next
  case CallDispose
  then show ?thesis using assms by (simp add: machineInv_dispose)
next
  case DebounceFires
  then show ?thesis
    using assms
    by (auto simp: debounceFires_def machineInv_def enqueueM_def Let_def
        split: if_splits option.splits)
next
  case SoftStallFires
  have "machineInv (m\<lparr>softStallTimerM := Spent\<rparr>)"
    using assms by (auto simp: machineInv_def split: if_splits)
  then show ?thesis
    using assms SoftStallFires
    by (simp add: softStallFires_def Let_def machineInv_scheduleMiddleState)
next
  case HardStallFires
  have "machineInv (m\<lparr>hardStallTimerM := Spent\<rparr>)"
    using assms by (auto simp: machineInv_def split: if_splits)
  then show ?thesis
    using assms HardStallFires
    by (simp add: hardStallFires_def Let_def machineInv_scheduleMiddleState)
next
  case ClearTimerFires
  have "machineInv (m\<lparr>clearTimer := Spent\<rparr>)"
    using assms by (auto simp: machineInv_def split: if_splits)
  then show ?thesis
    using assms ClearTimerFires by (simp add: clearTimerFires_def machineInv_dispose)
qed

lemma machineInv_run: "machineInv m \<Longrightarrow> machineInv (machineRun given evs m)"
proof (induction evs arbitrary: m)
  case Nil
  then show ?case by simp
next
  case (Cons ev evs)
  obtain now e where ev: "ev = (now, e)" by (cases ev)
  from Cons.prems have "machineInv (machineStep given ev m)"
    unfolding ev by (rule machineInv_step)
  then show ?case
    using Cons.IH by simp
qed

subsection \<open>After a terminal call\<close>

lemma laterCall_terminal:
  assumes "terminal m" and "laterCall ev"
  shows "machineStep given (t, ev) m = m"
  using assms
  by (cases ev) (simp_all add: thinking_def tool_def progress_def succeed_def fail_def finish_def)

lemma finish_settled:
  assumes "machineInv m" and "\<not> disposed m" and "\<not> terminal m"
  shows "settled (finish emoji holdMs m)"
    and "lane (finish emoji holdMs m) = lane m @ [FinishTask emoji holdMs]"
  using assms
  by (auto simp: settled_def finish_def machineInv_def enqueueM_def Let_def)

lemma settled_step:
  assumes "settled m" and "beforeDispose ev"
  shows "settled (machineStep given (t, ev) m) \<and>
         (\<exists>k. lane (machineStep given (t, ev) m) = drop k (lane m))"
proof (cases "laterCall ev")
  case True
  have "terminal m" using assms(1) by (simp add: settled_def)
  then have "machineStep given (t, ev) m = m"
    using True by (rule laterCall_terminal)
  then show ?thesis
    using assms(1) by (auto intro: exI [of _ 0])
next
  case False
  show ?thesis
  proof (cases ev)
    case (LaneRuns s throws)
    have "lane (laneRuns given s throws t m) = drop 0 (lane m) \<or>
        lane (laneRuns given s throws t m) = drop 1 (lane m)"
      using laneRuns_lane [of given s throws t m] by (simp add: drop_Suc)
    then have "\<exists>k. lane (laneRuns given s throws t m) = drop k (lane m)"
      by blast
    then show ?thesis
      using assms(1) LaneRuns unfolding settled_def
      by (simp add: laneRuns_keeps)
  next
    case DebounceFires
    then show ?thesis
      using assms(1) by (auto simp: settled_def debounceFires_def intro: exI [of _ 0])
  next
    case SoftStallFires
    then show ?thesis
      using assms(1) by (auto simp: settled_def softStallFires_def intro: exI [of _ 0])
  next
    case HardStallFires
    then show ?thesis
      using assms(1) by (auto simp: settled_def hardStallFires_def intro: exI [of _ 0])
  qed (use assms(2) False in simp_all)
qed

lemma settled_run:
  assumes "settled m" and "list_all (\<lambda>(t, ev). beforeDispose ev) evs"
  shows "settled (machineRun given evs m) \<and> (\<exists>k. lane (machineRun given evs m) = drop k (lane m))"
  using assms
proof (induction evs arbitrary: m)
  case Nil
  then show ?case by (auto intro: exI [of _ 0])
next
  case (Cons x evs)
  obtain t ev where x: "x = (t, ev)" by (cases x)
  let ?m1 = "machineStep given (t, ev) m"
  from Cons.prems x have b: "beforeDispose ev" and rest: "list_all (\<lambda>(t, ev). beforeDispose ev) evs"
    by auto
  from settled_step [OF Cons.prems(1) b, of given t]
  obtain k1 where s1: "settled ?m1" and l1: "lane ?m1 = drop k1 (lane m)"
    by blast
  from Cons.IH [OF s1 rest]
  obtain k2 where s2: "settled (machineRun given evs ?m1)"
    and l2: "lane (machineRun given evs ?m1) = drop k2 (lane ?m1)"
    by blast
  have "lane (machineRun given (x # evs) m) = drop (k2 + k1) (lane m)"
    using l1 l2 by (simp add: x)
  then show ?case
    using s2 x by auto
qed

text \<open>
  Take a machine as any sequence of events leaves it, neither disposed nor terminal,
  and call \<open>succeed\<close> or \<open>fail\<close>. The machine is then terminal, no emoji is pending, the
  debounce timer and both stall timers are cleared, and the terminal task is the last of the
  lane. From then on \<open>thinking\<close>, \<open>tool\<close>, \<open>progress\<close>, \<open>succeed\<close> and \<open>fail\<close> return
  the machine as it is. Whatever sequence of those calls, of callbacks of the debounce and
  stall timers and of steps of the lane follows, the machine stays so and no task is added
  to the lane: the tasks that run are those chained up to the terminal call, the terminal
  one last. \<open>start\<close>, \<open>dispose\<close> and the hold timer are not among these events.
\<close>

lemma terminal_calls_ignored:
  assumes "m = machineRun given evs0 (createDiscordReactionStatusMachine t0)"
    and "\<not> disposed m" and "\<not> terminal m"
    and "(fin, emoji, holdMs) = (CallSucceed, CheckMark, SUCCESS_HOLD_MS) \<or>
         (fin, emoji, holdMs) = (CallFail, CrossMark, FAILURE_HOLD_MS)"
    and "m' = machineStep given (now, fin) m"
  shows "terminal m' \<and> pendingMiddleEmoji m' = None \<and> debounceTimer m' = Idle \<and>
         softStallTimerM m' = Idle \<and> hardStallTimerM m' = Idle \<and>
         lane m' = lane m @ [FinishTask emoji holdMs] \<and>
         (\<forall>t ev. laterCall ev \<longrightarrow> machineStep given (t, ev) m' = m') \<and>
         (\<forall>evs. list_all (\<lambda>(t, ev). beforeDispose ev) evs \<longrightarrow>
            terminal (machineRun given evs m') \<and>
            pendingMiddleEmoji (machineRun given evs m') = None \<and>
            debounceTimer (machineRun given evs m') = Idle \<and>
            softStallTimerM (machineRun given evs m') = Idle \<and>
            hardStallTimerM (machineRun given evs m') = Idle \<and>
            (\<exists>k. lane (machineRun given evs m') = drop k (lane m')))"
proof -
  have inv: "machineInv m"
    unfolding assms(1) by (intro machineInv_run machineInv_create)
  have f: "m' = finish emoji holdMs m"
    using assms(4,5) by (auto simp: succeed_def fail_def)
  have s: "settled m'" and l: "lane m' = lane m @ [FinishTask emoji holdMs]"
    unfolding f using finish_settled [OF inv assms(2,3)] by auto
  have later: "\<forall>t ev. laterCall ev \<longrightarrow> machineStep given (t, ev) m' = m'"
    using s laterCall_terminal by (auto simp: settled_def)
  have run: "\<forall>evs. list_all (\<lambda>(t, ev). beforeDispose ev) evs \<longrightarrow>
      settled (machineRun given evs m') \<and> (\<exists>k. lane (machineRun given evs m') = drop k (lane m'))"
    using settled_run [OF s] by blast
  show ?thesis
    using s l later run unfolding settled_def by blast
qed

lemmas machine_defs =
  createDiscordReactionStatusMachine_def start_def thinking_def tool_def progress_def
  succeed_def fail_def finish_def dispose_def markProgress_def scheduleStallChecks_def
  scheduleMiddleState_def enqueueM_def clearTimers_def debounceFires_def softStallFires_def
  hardStallFires_def clearTimerFires_def laneRuns_def linkSettles_def catchReport_def
  setEmojiImmediate_def makeCall_def callSettles_def recordCall_def onError_def
  stallDeadline_def noThrow_def
  MIDDLE_STATE_DEBOUNCE_MS_def STALL_SOFT_MS_def STALL_HARD_MS_def SUCCESS_HOLD_MS_def
  FAILURE_HOLD_MS_def Let_def

lemma exampleMachine_eq:
  "exampleMachine =
     \<lparr>currentEmoji = None, pendingMiddleEmoji = Some Brain, lastProgressAt = 10,
      disposed = False, terminal = False, debounceTimer = Armed 710 (),
      softStallTimerM = Armed 10010 (), hardStallTimerM = Armed 30010 (), clearTimer = Idle,
      lane = [SetEmojiTask Eyes], running = None, laneTail = Resolves, reactionCalls = [],
      reported = []\<rparr>"
  by (simp add: exampleMachine_def machine_defs)

lemma terminal_calls_ignored_example:
  "\<not> disposed exampleMachine \<and> \<not> terminal exampleMachine \<and>
   pendingMiddleEmoji exampleMachine = Some Brain \<and>
   terminal (machineStep True (20, CallSucceed) exampleMachine) \<and>
   pendingMiddleEmoji (machineStep True (20, CallSucceed) exampleMachine) = None \<and>
   debounceTimer (machineStep True (20, CallSucceed) exampleMachine) = Idle \<and>
   softStallTimerM (machineStep True (20, CallSucceed) exampleMachine) = Idle \<and>
   hardStallTimerM (machineStep True (20, CallSucceed) exampleMachine) = Idle \<and>
   lane (machineStep True (20, CallSucceed) exampleMachine)
     = [SetEmojiTask Eyes, FinishTask CheckMark SUCCESS_HOLD_MS] \<and>
   machineStep True (30, CallThinking) (machineStep True (20, CallSucceed) exampleMachine)
     = machineStep True (20, CallSucceed) exampleMachine \<and>
   terminal (machineRun True [(30, DebounceFires), (40, CallTool None), (10020, SoftStallFires)]
     (machineStep True (20, CallSucceed) exampleMachine))"
proof -
  have pre: "\<not> disposed exampleMachine" "\<not> terminal exampleMachine"
    "pendingMiddleEmoji exampleMachine = Some Brain" "lane exampleMachine = [SetEmojiTask Eyes]"
    by (simp_all add: exampleMachine_eq)
  have q: "list_all (\<lambda>(t, ev). beforeDispose ev)
      [(30, DebounceFires), (40, CallTool None), (10020, SoftStallFires)]"
    by simp
  note t = terminal_calls_ignored
    [OF exampleMachine_def pre(1) pre(2) disjI1 [OF refl] refl, of 20]
  from t q have r: "terminal (machineRun True
      [(30, DebounceFires), (40, CallTool None), (10020, SoftStallFires)]
      (machineStep True (20, CallSucceed) exampleMachine))"
    by blast
  have l: "laterCall CallThinking" by simp
  from t l have i: "machineStep True (30, CallThinking)
      (machineStep True (20, CallSucceed) exampleMachine)
     = machineStep True (20, CallSucceed) exampleMachine"
    by blast
  from t pre r i show ?thesis by simp
qed


text \<open>
  C10. The machine does not keep the terminal emoji against \<open>start\<close>. \<open>thinking\<close>,
  \<open>tool\<close>, \<open>progress\<close> and \<open>finish\<close> return at once when the machine is disposed or
  terminal; \<open>start\<close> looks at \<open>disposed\<close> alone. Take the machine that has started and
  succeeded, every call to Discord fulfilled: it is terminal and not disposed, it shows the
  check mark, and its hold timer is due at 1513. A call of \<open>start\<close> at 20 chains
  \<open>setEmojiImmediate\<close> for the eyes; the lane then removes the check mark and sets the
  eyes, at 23, long before the hold timer can call \<open>dispose\<close>.
\<close>

theorem start_replaces_terminal_icon:
  "terminal succeededMachine \<and> \<not> disposed succeededMachine \<and>
   currentEmoji succeededMachine = Some CheckMark \<and>
   clearTimer succeededMachine = Armed 1513 () \<and>
   lane succeededMachine = [] \<and> running succeededMachine = None \<and>
   reactionCalls succeededMachine
     = [(SetReaction Eyes, Fulfilled), (ClearReaction Eyes, Fulfilled),
        (SetReaction CheckMark, Fulfilled)] \<and>
   lane (start 20 succeededMachine) = [SetEmojiTask Eyes] \<and>
   reactionCalls
     (machineRun True
        [(20, CallStart), (21, LaneRuns None noThrow), (22, LaneRuns None noThrow),
         (23, LaneRuns None noThrow)]
        succeededMachine)
     = [(SetReaction Eyes, Fulfilled), (ClearReaction Eyes, Fulfilled),
        (SetReaction CheckMark, Fulfilled), (ClearReaction CheckMark, Fulfilled),
        (SetReaction Eyes, Fulfilled)] \<and>
   currentEmoji
     (machineRun True
        [(20, CallStart), (21, LaneRuns None noThrow), (22, LaneRuns None noThrow),
         (23, LaneRuns None noThrow)]
        succeededMachine)
     = Some Eyes \<and>
   terminal
     (machineRun True
        [(20, CallStart), (21, LaneRuns None noThrow), (22, LaneRuns None noThrow),
         (23, LaneRuns None noThrow)]
        succeededMachine) \<and>
   \<not> disposed
     (machineRun True
        [(20, CallStart), (21, LaneRuns None noThrow), (22, LaneRuns None noThrow),
         (23, LaneRuns None noThrow)]
        succeededMachine)"
  by (simp add: succeededMachine_def machine_defs)


subsection \<open>Stall timers\<close>


lemma pendingTimerFires_keeps [simp]:
  "softStallTimer (pendingTimerFires p now c) = softStallTimer c"
  "hardStallTimer (pendingTimerFires p now c) = hardStallTimer c"
  "finished (pendingTimerFires p now c) = finished c"
  by (simp_all add: pendingTimerFires_def applyEmoji_def Let_def split: timer.splits option.splits)









lemma debounceFires_keeps [simp]:
  "softStallTimerM (debounceFires now m) = softStallTimerM m"
  "hardStallTimerM (debounceFires now m) = hardStallTimerM m"
  "lastProgressAt (debounceFires now m) = lastProgressAt m"
  "disposed (debounceFires now m) = disposed m"
  "terminal (debounceFires now m) = terminal m"
  by (simp_all add: debounceFires_def enqueueM_def Let_def split: option.splits)

lemma scheduleMiddleState_keeps [simp]:
  "softStallTimerM (scheduleMiddleState now e m) = softStallTimerM m"
  "hardStallTimerM (scheduleMiddleState now e m) = hardStallTimerM m"
  "lastProgressAt (scheduleMiddleState now e m) = lastProgressAt m"
  "disposed (scheduleMiddleState now e m) = disposed m"
  "terminal (scheduleMiddleState now e m) = terminal m"
  by (simp_all add: scheduleMiddleState_def)










lemma pendingTimerFires_phase [simp]:
  "semanticPhase (pendingTimerFires p now c) = semanticPhase c"
  by (simp add: pendingTimerFires_def applyEmoji_def Let_def split: timer.splits option.splits)

lemma stallTimerFires_phase [simp]:
  "semanticPhase (softStallTimerFires p now c) = semanticPhase c"
  "semanticPhase (hardStallTimerFires p now c) = semanticPhase c"
  by (simp_all add: softStallTimerFires_def hardStallTimerFires_def Let_def)

























subsection \<open>Failures of the calls to Discord\<close>

lemma failedCalls_append [simp]: "failedCalls (xs @ ys) = failedCalls xs @ failedCalls ys"
  by (simp add: failedCalls_def List.map_filter_def)

lemma failedCalls_Cons [simp]: "failedCalls ((call, r) # xs) = thrown r @ failedCalls xs"
  by (cases r) (simp_all add: failedCalls_def thrown_def List.map_filter_def)

lemma failedCalls_Nil [simp]: "failedCalls [] = []"
  by (simp add: failedCalls_def List.map_filter_def)

lemma applyEmojiWork_failures:
  assumes "ackFailures c = failedCalls (discordCalls c)"
  shows "ackFailures (fst (applyEmojiWork p d e c)) @ thrown (snd (applyEmojiWork p d e c))
         = failedCalls (discordCalls (fst (applyEmojiWork p d e c)))"
  using assms
  by (auto simp: applyEmojiWork_def callDiscord_def Let_def thrown_def split: option.splits)

lemma removeCandidates_failures:
  assumes "ackFailures c = failedCalls (discordCalls c)"
  shows "ackFailures (removeCandidates p d es c) = failedCalls (discordCalls (removeCandidates p d es c))"
  using assms
proof (induction es arbitrary: c)
  case Nil
  then show ?case by simp
next
  case (Cons e es)
  show ?case
  proof (cases "e = []")
    case True
    then show ?thesis using Cons by simp
  next
    case False
    let ?call = "RemoveReaction (channelId p) (messageId p) e"
    show ?thesis
    proof (cases "d ?call")
      case None
      let ?c1 = "snd (callDiscord d ?call c)"
      have "ackFailures ?c1 = failedCalls (discordCalls ?c1)"
        using Cons.prems None by (simp add: thrown_def)
      from Cons.IH [OF this] show ?thesis
        using False None by (simp add: callDiscord_def)
    next
      case (Some x)
      let ?c1 = "logAckFailure x (snd (callDiscord d ?call c))"
      have "ackFailures ?c1 = failedCalls (discordCalls ?c1)"
        using Cons.prems Some by (simp add: thrown_def)
      from Cons.IH [OF this] show ?thesis
        using False Some by (simp add: callDiscord_def)
    qed
  qed
qed

lemma execWork_failures:
  assumes "ackFailures c = failedCalls (discordCalls c)"
  shows "ackFailures (fst (execWork p d w c)) @ thrown (snd (execWork p d w c))
         = failedCalls (discordCalls (fst (execWork p d w c)))"
proof (cases w)
  case (ApplyEmojiWork e)
  then show ?thesis using applyEmojiWork_failures [OF assms] by simp
next
  case ClearWork
  have "ackFailures (c\<lparr>activeEmoji := None\<rparr>) = failedCalls (discordCalls (c\<lparr>activeEmoji := None\<rparr>))"
    using assms by simp
  from removeCandidates_failures [OF this] ClearWork show ?thesis
    by (simp add: clearWork_def thrown_def)
qed

lemma chainRuns_sound:
  assumes "chainTail c = Resolves" and "ackFailures c = failedCalls (discordCalls c)"
  shows "chainTail (chainRuns p d c) = Resolves \<and>
         ackFailures (chainRuns p d c) = failedCalls (discordCalls (chainRuns p d c))"
proof (cases "chain c")
  case Nil
  then show ?thesis using assms by (simp add: chainRuns_Nil)
next
  case (Cons w ws)
  let ?c0 = "c\<lparr>chain := ws\<rparr>"
  have a: "ackFailures ?c0 = failedCalls (discordCalls ?c0)"
    using assms(2) by simp
  note f = execWork_failures [OF a, of p d w]
  obtain c1 r where e: "execWork p d w ?c0 = (c1, r)"
    by (cases "execWork p d w ?c0")
  show ?thesis
    using Cons assms(1) f
    by (cases r) (simp_all add: chainRuns_def thenWork_def catchLog_def e thrown_def)
qed

lemma chainRuns_resolves: "chain c \<noteq> [] \<Longrightarrow> chainTail (chainRuns p d c) = Resolves"
  by (cases "chain c") (simp_all add: chainRuns_Cons)

lemma recordsOf_simps [simp]:
  "recordsOf (requestEmoji p now e i a c) = recordsOf c"
  "recordsOf (scheduleStallTimers p now c) = recordsOf c"
  "recordsOf (clearStallTimers c) = recordsOf c"
  "recordsOf (clearPendingDebounce c) = recordsOf c"
  "recordsOf (enqueue w c) = recordsOf c"
  "recordsOf (snd (transitionSemanticPhase ph c)) = recordsOf c"
  "recordsOf (c\<lparr>finished := b\<rparr>) = recordsOf c"
  "recordsOf (c\<lparr>softStallTimer := t1\<rparr>) = recordsOf c"
  "recordsOf (c\<lparr>hardStallTimer := t2\<rparr>) = recordsOf c"
  by (simp_all add: recordsOf_def)

lemma pendingTimerFires_recordsOf [simp]: "recordsOf (pendingTimerFires p now c) = recordsOf c"
  by (simp add: pendingTimerFires_def applyEmoji_def Let_def recordsOf_def
      split: timer.splits option.splits)

lemma setPhase_recordsOf [simp]: "recordsOf (setPhase p now e c) = recordsOf c"
  using recordsOf_simps(6) [of Active c]
  by (cases "transitionSemanticPhase Active c") (auto simp: setPhase_def split: bool.splits)

lemma setTerminal_recordsOf [simp]: "recordsOf (setTerminal p now e c) = recordsOf c"
  using recordsOf_simps(6) [of Terminal c]
  by (cases "transitionSemanticPhase Terminal c") (auto simp: setTerminal_def split: bool.splits)

lemma controllerStep_recordsOf:
  assumes "\<not> isChainRuns ev"
  shows "recordsOf (controllerStep p (now, ev) c) = recordsOf c"
proof (cases ev)
  case CallSetQueued
  then show ?thesis
    using recordsOf_simps(6) [of Queued c]
    by (cases "transitionSemanticPhase Queued c") (auto simp: setQueued_def split: bool.splits)
next
  case CallSetWaiting
  then show ?thesis
    using recordsOf_simps(6) [of Waiting c]
    by (cases "transitionSemanticPhase Waiting c") (auto simp: setWaiting_def split: bool.splits)
next
  case CallSetRetryableError
  then show ?thesis
    using recordsOf_simps(6) [of Active c]
    by (cases "transitionSemanticPhase Active c")
      (auto simp: setRetryableError_def split: bool.splits)
qed (use assms in \<open>simp_all add: setThinking_def setTool_def setDone_def setError_def clear_def
      restoreInitial_def softStallTimerFires_def hardStallTimerFires_def Let_def\<close>)

lemma controllerStep_sound:
  assumes "chainTail c = Resolves \<and> ackFailures c = failedCalls (discordCalls c)"
  shows "chainTail (controllerStep p (now, ev) c) = Resolves \<and>
         ackFailures (controllerStep p (now, ev) c)
           = failedCalls (discordCalls (controllerStep p (now, ev) c))"
proof (cases "isChainRuns ev")
  case True
  then obtain d where "ev = ChainRuns d" by (cases ev) auto
  then show ?thesis using chainRuns_sound assms by simp
next
  case False
  from controllerStep_recordsOf [OF False, of p now c] assms show ?thesis
    by (simp add: recordsOf_def)
qed

lemma controllerRun_sound:
  assumes "chainTail c = Resolves \<and> ackFailures c = failedCalls (discordCalls c)"
  shows "chainTail (controllerRun p evs c) = Resolves \<and>
         ackFailures (controllerRun p evs c) = failedCalls (discordCalls (controllerRun p evs c))"
  using assms
proof (induction evs arbitrary: c)
  case Nil
  then show ?case by simp
next
  case (Cons x evs)
  obtain t ev where x: "x = (t, ev)" by (cases x)
  from Cons.IH [OF controllerStep_sound [OF Cons.prems, of p t ev]] show ?case
    by (simp add: x)
qed

lemma failedCallsM_simps [simp]:
  "failedCallsM [] = []"
  "failedCallsM (xs @ ys) = failedCallsM xs @ failedCallsM ys"
  "failedCallsM [(call, a)] = failure a"
  by (simp_all add: failedCallsM_def)

lemma reportsMatch_cong:
  "reported a = reported b \<Longrightarrow> reactionCalls a = reactionCalls b \<Longrightarrow>
   reportsMatch given a = reportsMatch given b"
  by (cases given) (simp_all add: reportsMatch_def)

lemma callSettles_reports:
  assumes "reportsMatch given m" and "text \<noteq> ''discord status reaction failed: ''"
  shows "reportsMatch given (callSettles given s call text m)"
  using assms
  by (cases s; cases given)
    (simp_all add: reportsMatch_def callSettles_def onError_def recordCall_def byLane_def)

lemma makeCall_reports:
  assumes "reportsMatch given m"
  shows "stepReported given (makeCall throws call wait m)"
  using assms
  by (cases "throws call"; cases given)
    (simp_all add: stepReported_def makeCall_def reportsMatch_def onError_def recordCall_def
      byLane_def)

lemma setEmojiImmediate_reports:
  assumes "reportsMatch given m"
  shows "stepReported given (setEmojiImmediate throws emoji m)"
proof (cases "disposed m \<or> Some emoji = currentEmoji m")
  case True
  then show ?thesis using assms by (simp add: setEmojiImmediate_def stepReported_def)
next
  case False
  then show ?thesis
    using makeCall_reports [OF assms]
    by (cases "currentEmoji m") (simp_all add: setEmojiImmediate_def)
qed

lemma startTask_reports:
  assumes "reportsMatch given m"
  shows "stepReported given (startTask throws task m)"
  using setEmojiImmediate_reports [OF assms] makeCall_reports [OF assms]
  by (cases task) simp_all

lemma resumeTask_reports:
  assumes "reportsMatch given m"
  shows "stepReported given (resumeTask given s throws wait m)"
proof (cases wait)
  case (AwaitRemove previous emoji)
  have "reportsMatch given
      (callSettles given s (ClearReaction previous) ''discord status remove reaction failed: '' m)"
    using assms by (rule callSettles_reports) simp
  then show ?thesis
    using AwaitRemove by (simp add: makeCall_reports)
next
  case (AwaitSet emoji)
  let ?m1 = "callSettles given s (SetReaction emoji) ''discord status set reaction failed: '' m"
  have "reportsMatch given ?m1"
    using assms by (rule callSettles_reports) simp
  moreover have "reportsMatch given (?m1\<lparr>currentEmoji := Some emoji\<rparr>) = reportsMatch given ?m1"
    by (rule reportsMatch_cong) simp_all
  ultimately show ?thesis
    using AwaitSet by (simp add: stepReported_def)
next
  case (AwaitClear emoji)
  have "reportsMatch given
      (callSettles given s (ClearReaction emoji) ''discord status clear reaction failed: '' m)"
    using assms by (rule callSettles_reports) simp
  then show ?thesis
    using AwaitClear by (simp add: stepReported_def)
qed

lemma afterTask_records [simp]:
  "reactionCalls (afterTask now task link m) = reactionCalls m"
  "reported (afterTask now task link m) = reported m"
  "laneTail (afterTask now task link m) = laneTail m"
  "running (afterTask now task link m) = running m"
  "currentEmoji (afterTask now task link m) = currentEmoji m"
  by (cases task; cases link; simp)+

lemma linkSettles_resolves:
  "laneTail (linkSettles given now task res m) = Resolves"
  "running (linkSettles given now task res m) = None"
  by (cases res; simp add: linkSettles_def catchReport_def)+

lemma linkSettles_reported:
  "reported (linkSettles given now task None m) = reported m"
  "reported (linkSettles given now task (Some e) m)
     = reported (onError given ''discord status reaction failed: '' e m)"
  "reactionCalls (linkSettles given now task res m) = reactionCalls m"
  by (cases res; simp add: linkSettles_def catchReport_def onError_def)+

lemma taskStepped_sound:
  assumes "stepReported given x" and "laneTail (fst x) = Resolves"
  shows "laneTail (taskStepped given now task x) = Resolves \<and>
         reportsMatch given (taskStepped given now task x)"
proof (cases x)
  case (Pair m st)
  show ?thesis
  proof (cases st)
    case (Waits wait)
    have "reportsMatch given (m\<lparr>running := Some (task, wait)\<rparr>) = reportsMatch given m"
      by (rule reportsMatch_cong) simp_all
    then show ?thesis
      using assms Pair Waits by (simp add: stepReported_def)
  next
    case (Ends res)
    show ?thesis
    proof (cases res)
      case None
      have "reportsMatch given (linkSettles given now task None m) = reportsMatch given m"
        by (rule reportsMatch_cong) (simp_all add: linkSettles_reported)
      then show ?thesis
        using assms Pair Ends None by (simp add: stepReported_def linkSettles_resolves)
    next
      case (Some e)
      have "reportsMatch given (linkSettles given now task (Some e) m)
          = reportsMatch given (onError given ''discord status reaction failed: '' e m)"
        by (rule reportsMatch_cong) (simp_all add: linkSettles_reported onError_def)
      then show ?thesis
        using assms Pair Ends Some by (simp add: stepReported_def linkSettles_resolves)
    qed
  qed
qed

lemma task_laneTail [simp]:
  "laneTail (fst (makeCall throws call wait m)) = laneTail m"
  "laneTail (callSettles given s call text m) = laneTail m"
  "laneTail (fst (setEmojiImmediate throws emoji m)) = laneTail m"
  by (simp_all add: makeCall_def callSettles_def setEmojiImmediate_def recordCall_def
      onError_def split: option.splits)

lemma startTask_laneTail [simp]: "laneTail (fst (startTask throws task m)) = laneTail m"
  by (cases task) simp_all

lemma resumeTask_laneTail [simp]:
  "laneTail (fst (resumeTask given s throws wait m)) = laneTail m"
  by (cases wait) simp_all

lemma laneRuns_sound:
  assumes "laneTail m = Resolves" and "reportsMatch given m"
  shows "laneTail (laneRuns given s throws now m) = Resolves \<and>
         reportsMatch given (laneRuns given s throws now m)"
proof (cases "running m")
  case (Some x)
  obtain task wait where x: "x = (task, wait)" by (cases x)
  have "laneRuns given s throws now m
      = taskStepped given now task (resumeTask given s throws wait m)"
    by (simp add: laneRuns_def Some x)
  then show ?thesis
    using taskStepped_sound [OF resumeTask_reports [OF assms(2)], of s throws wait now task]
      assms(1)
    by simp
next
  case None
  show ?thesis
  proof (cases "lane m")
    case Nil
    then show ?thesis using assms None by (simp add: laneRuns_def)
  next
    case (Cons task rest)
    let ?m0 = "m\<lparr>lane := rest\<rparr>"
    have a: "reportsMatch given ?m0"
      using assms(2) reportsMatch_cong [of ?m0 m given] by simp
    have "laneRuns given s throws now m = taskStepped given now task (startTask throws task ?m0)"
      using None Cons assms(1) by (simp add: laneRuns_def)
    then show ?thesis
      using taskStepped_sound [OF startTask_reports [OF a], of throws task now task] assms(1)
      by simp
  qed
qed

lemma recordsOfM_simps [simp]:
  "recordsOfM (enqueueM t m) = recordsOfM m"
  "recordsOfM (scheduleMiddleState now e m) = recordsOfM m"
  "recordsOfM (markProgress now m) = recordsOfM m"
  "recordsOfM (finish e h m) = recordsOfM m"
  "recordsOfM (dispose m) = recordsOfM m"
  "recordsOfM (debounceFires now m) = recordsOfM m"
  "recordsOfM (m\<lparr>softStallTimerM := t1\<rparr>) = recordsOfM m"
  "recordsOfM (m\<lparr>hardStallTimerM := t2\<rparr>) = recordsOfM m"
  "recordsOfM (m\<lparr>clearTimer := t3\<rparr>) = recordsOfM m"
  by (simp_all add: recordsOfM_def enqueueM_def scheduleMiddleState_def markProgress_def
      scheduleStallChecks_def finish_def dispose_def clearTimers_def debounceFires_def Let_def
      split: option.splits)

lemma machineStep_recordsOfM:
  assumes "\<not> isLaneRuns ev"
  shows "recordsOfM (machineStep given (now, ev) m) = recordsOfM m"
  using assms
  by (cases ev)
    (simp_all add: start_def thinking_def tool_def progress_def succeed_def fail_def
      softStallFires_def hardStallFires_def clearTimerFires_def Let_def)

lemma machineStep_sound:
  assumes "laneTail m = Resolves \<and> reportsMatch given m"
  shows "laneTail (machineStep given (now, ev) m) = Resolves \<and>
         reportsMatch given (machineStep given (now, ev) m)"
proof (cases "isLaneRuns ev")
  case True
  then obtain s throws where "ev = LaneRuns s throws" by (cases ev) auto
  then show ?thesis using laneRuns_sound assms by simp
next
  case False
  from machineStep_recordsOfM [OF False, of given now m]
  have k: "reactionCalls (machineStep given (now, ev) m) = reactionCalls m"
    "reported (machineStep given (now, ev) m) = reported m"
    "laneTail (machineStep given (now, ev) m) = laneTail m"
    by (simp_all add: recordsOfM_def)
  have "reportsMatch given (machineStep given (now, ev) m) = reportsMatch given m"
    using k by (intro reportsMatch_cong) simp_all
  then show ?thesis
    using assms k by simp
qed

lemma machineRun_sound:
  assumes "laneTail m = Resolves \<and> reportsMatch given m"
  shows "laneTail (machineRun given evs m) = Resolves \<and>
         reportsMatch given (machineRun given evs m)"
  using assms
proof (induction evs arbitrary: m)
  case Nil
  then show ?case by simp
next
  case (Cons x evs)
  obtain t ev where x: "x = (t, ev)" by (cases x)
  from Cons.IH [OF machineStep_sound [OF Cons.prems, where now = t and ev = ev]] show ?case
    by (simp add: x)
qed

text \<open>
  C8. No failure of a call to Discord leaves the controller or the machine. The operations
  themselves make no call: calls are made by the works of the chain and the tasks of the
  lane alone. For every controller that came from a new one, the chain has resolved and
  \<open>logAckFailure\<close> has been given exactly the errors of the failed calls, in order. For
  every machine that came from a new one, the lane has resolved and \<open>onError\<close>, when it is
  given, has been given one message for each failed call, in order: by the handler of the
  call when the promise of the call rejected, by the handler of the lane when the call
  threw on the spot and ended its task. A link of the chain or of the lane resolves whatever
  the work or the task did, and no task is left running, so that the work chained next
  runs: the lane then starts its oldest task.
\<close>

theorem discord_failures_contained:
  "(\<forall>evs.
      chainTail (controllerRun p evs createDiscordStatusReactionController) = Resolves \<and>
      ackFailures (controllerRun p evs createDiscordStatusReactionController)
        = failedCalls (discordCalls (controllerRun p evs createDiscordStatusReactionController))) \<and>
   (\<forall>c now ev. \<not> isChainRuns ev \<longrightarrow>
      discordCalls (controllerStep p (now, ev) c) = discordCalls c \<and>
      ackFailures (controllerStep p (now, ev) c) = ackFailures c \<and>
      chainTail (controllerStep p (now, ev) c) = chainTail c) \<and>
   (\<forall>c d. chain c \<noteq> [] \<longrightarrow> chainTail (chainRuns p d c) = Resolves) \<and>
   (\<forall>evs t0.
      laneTail (machineRun given evs (createDiscordReactionStatusMachine t0)) = Resolves \<and>
      reportsMatch given (machineRun given evs (createDiscordReactionStatusMachine t0))) \<and>
   (\<forall>m now ev. \<not> isLaneRuns ev \<longrightarrow>
      reactionCalls (machineStep given (now, ev) m) = reactionCalls m \<and>
      reported (machineStep given (now, ev) m) = reported m \<and>
      laneTail (machineStep given (now, ev) m) = laneTail m \<and>
      running (machineStep given (now, ev) m) = running m) \<and>
   (\<forall>throws call wait m e. throws call = Some e \<longrightarrow>
      makeCall throws call wait m = (recordCall call (Thrown e) m, Ends (Some e))) \<and>
   (\<forall>now task res m.
      laneTail (linkSettles given now task res m) = Resolves \<and>
      running (linkSettles given now task res m) = None \<and>
      reactionCalls (linkSettles given now task res m) = reactionCalls m \<and>
      reported (linkSettles given now task res m)
        = (case res of
             None \<Rightarrow> reported m
           | Some e \<Rightarrow>
               if given then reported m @ [(''discord status reaction failed: '', e)]
               else reported m)) \<and>
   (\<forall>m s throws now task rest.
      running m = None \<and> laneTail m = Resolves \<and> lane m = task # rest \<longrightarrow>
      laneRuns given s throws now m
        = taskStepped given now task (startTask throws task (m\<lparr>lane := rest\<rparr>)))"
proof (intro conjI allI impI)
  fix evs
  have "chainTail createDiscordStatusReactionController = Resolves \<and>
      ackFailures createDiscordStatusReactionController
        = failedCalls (discordCalls createDiscordStatusReactionController)"
    by (simp add: createDiscordStatusReactionController_def)
  from controllerRun_sound [OF this, of p evs]
  show "chainTail (controllerRun p evs createDiscordStatusReactionController) = Resolves"
    and "ackFailures (controllerRun p evs createDiscordStatusReactionController)
        = failedCalls (discordCalls (controllerRun p evs createDiscordStatusReactionController))"
    by simp_all
next
  fix c :: Controller and now ev
  assume "\<not> isChainRuns ev"
  from controllerStep_recordsOf [OF this, of p now c]
  show "discordCalls (controllerStep p (now, ev) c) = discordCalls c"
    and "ackFailures (controllerStep p (now, ev) c) = ackFailures c"
    and "chainTail (controllerStep p (now, ev) c) = chainTail c"
    by (simp_all add: recordsOf_def)
next
  fix c :: Controller and d
  assume "chain c \<noteq> []"
  then show "chainTail (chainRuns p d c) = Resolves"
    by (rule chainRuns_resolves)
next
  fix evs t0
  have "laneTail (createDiscordReactionStatusMachine t0) = Resolves \<and>
      reportsMatch given (createDiscordReactionStatusMachine t0)"
    by (cases given) (simp_all add: createDiscordReactionStatusMachine_def reportsMatch_def)
  from machineRun_sound [OF this, of evs]
  show "laneTail (machineRun given evs (createDiscordReactionStatusMachine t0)) = Resolves"
    and "reportsMatch given (machineRun given evs (createDiscordReactionStatusMachine t0))"
    by simp_all
next
  fix m :: Machine and now ev
  assume "\<not> isLaneRuns ev"
  from machineStep_recordsOfM [OF this, of given now m]
  show "reactionCalls (machineStep given (now, ev) m) = reactionCalls m"
    and "reported (machineStep given (now, ev) m) = reported m"
    and "laneTail (machineStep given (now, ev) m) = laneTail m"
    and "running (machineStep given (now, ev) m) = running m"
    by (simp_all add: recordsOfM_def)
next
  fix throws :: throwing and call wait and m :: Machine and e
  assume "throws call = Some e"
  then show "makeCall throws call wait m = (recordCall call (Thrown e) m, Ends (Some e))"
    by (simp add: makeCall_def)
next
  fix now task res and m :: Machine
  show "laneTail (linkSettles given now task res m) = Resolves"
    and "running (linkSettles given now task res m) = None"
    by (rule linkSettles_resolves)+
  show "reactionCalls (linkSettles given now task res m) = reactionCalls m"
    by (rule linkSettles_reported)
  show "reported (linkSettles given now task res m)
        = (case res of
             None \<Rightarrow> reported m
           | Some e \<Rightarrow>
               if given then reported m @ [(''discord status reaction failed: '', e)]
               else reported m)"
    by (cases res) (simp_all add: linkSettles_reported onError_def)
next
  fix m :: Machine and s throws now task rest
  assume "running m = None \<and> laneTail m = Resolves \<and> lane m = task # rest"
  then show "laneRuns given s throws now m
        = taskStepped given now task (startTask throws task (m\<lparr>lane := rest\<rparr>))"
    by (simp add: laneRuns_def)
qed


lemma failedRun_calls:
  "discordCalls failedRun =
     [(ReactMessage (js ''c1'') (js ''m1'') [0xD83D, 0xDC40], Some ''boom''),
      (ReactMessage (js ''c1'') (js ''m1'') DISCORD_STATUS_THINKING_EMOJI, None),
      (ReactMessage (js ''c1'') (js ''m1'') DISCORD_STATUS_DONE_EMOJI, None),
      (RemoveReaction (js ''c1'') (js ''m1'') DISCORD_STATUS_THINKING_EMOJI, None)]"
  "activeEmoji failedRun = Some DISCORD_STATUS_DONE_EMOJI"
  by (simp_all add: failedRun_def controller_defs failing_def working_def)

lemma failedRunM_calls:
  "reactionCalls failedRunM
     = [(SetReaction Eyes, Thrown ''boom''), (SetReaction CheckMark, Rejected ''late'')]"
  "currentEmoji failedRunM = Some CheckMark"
  "running failedRunM = None"
  by (simp_all add: failedRunM_def machine_defs failingM_def)

theorem discord_failures_contained_witness:
  "chainTail failedRun = Resolves \<and> ackFailures failedRun = [''boom''] \<and>
   activeEmoji failedRun = Some DISCORD_STATUS_DONE_EMOJI \<and>
   discordCalls (controllerStep fullParams (400, CallRestoreInitial) failedRun)
     = discordCalls failedRun \<and>
   laneTail failedRunM = Resolves \<and>
   map byLane (reported failedRunM) = [(True, ''boom''), (False, ''late'')] \<and>
   currentEmoji failedRunM = Some CheckMark \<and> running failedRunM = None \<and>
   chainTail (chainRuns fullParams (failing ''boom'') exampleController) = Resolves \<and>
   reactionCalls (machineStep True (5, CallThinking) failedRunM) = reactionCalls failedRunM \<and>
   makeCall (failingM ''boom'') (SetReaction Eyes) (AwaitSet Eyes) exampleStarted
     = (recordCall (SetReaction Eyes) (Thrown ''boom'') exampleStarted, Ends (Some ''boom'')) \<and>
   laneRuns True None noThrow 1 exampleStarted
     = taskStepped True 1 (SetEmojiTask Eyes)
         (startTask noThrow (SetEmojiTask Eyes) (exampleStarted\<lparr>lane := []\<rparr>))"
proof -
  note t = discord_failures_contained [of fullParams True]
  note t3 = t [THEN conjunct2, THEN conjunct2, THEN conjunct1]
  note t5 = t [THEN conjunct2, THEN conjunct2, THEN conjunct2, THEN conjunct2, THEN conjunct1]
  note t6 = t [THEN conjunct2, THEN conjunct2, THEN conjunct2, THEN conjunct2, THEN conjunct2,
      THEN conjunct1]
  note t8 = t [THEN conjunct2, THEN conjunct2, THEN conjunct2, THEN conjunct2, THEN conjunct2,
      THEN conjunct2, THEN conjunct2]
  have "chain exampleController \<noteq> []"
    by (simp add: exampleController_def controller_defs)
  with t3 have 4: "chainTail (chainRuns fullParams (failing ''boom'') exampleController) = Resolves"
    by blast
  have "\<not> isLaneRuns CallThinking" by simp
  with t5 have 5: "reactionCalls (machineStep True (5, CallThinking) failedRunM)
      = reactionCalls failedRunM"
    by blast
  have "failingM ''boom'' (SetReaction Eyes) = Some ''boom''"
    by (simp add: failingM_def)
  with t6 have 6: "makeCall (failingM ''boom'') (SetReaction Eyes) (AwaitSet Eyes) exampleStarted
     = (recordCall (SetReaction Eyes) (Thrown ''boom'') exampleStarted, Ends (Some ''boom''))"
    by blast
  have "running exampleStarted = None \<and> laneTail exampleStarted = Resolves \<and>
      lane exampleStarted = [SetEmojiTask Eyes]"
    by (simp add: exampleStarted_def machine_defs)
  with t8 have 7: "laneRuns True None noThrow 1 exampleStarted
     = taskStepped True 1 (SetEmojiTask Eyes)
         (startTask noThrow (SetEmojiTask Eyes) (exampleStarted\<lparr>lane := []\<rparr>))"
    by blast
  note t1 = t [THEN conjunct1]
  note t2 = t [THEN conjunct2, THEN conjunct1]
  note t4 = t [THEN conjunct2, THEN conjunct2, THEN conjunct2, THEN conjunct1]
  from t1 have "chainTail failedRun = Resolves \<and>
      ackFailures failedRun = failedCalls (discordCalls failedRun)"
    unfolding failedRun_def by blast
  then have 1: "chainTail failedRun = Resolves" "ackFailures failedRun = [''boom'']"
    by (simp_all add: failedRun_calls thrown_def)
  have "\<not> isChainRuns CallRestoreInitial" by simp
  with t2 have 2: "discordCalls (controllerStep fullParams (400, CallRestoreInitial) failedRun)
     = discordCalls failedRun"
    by blast
  from t4 have "laneTail failedRunM = Resolves \<and> reportsMatch True failedRunM"
    unfolding failedRunM_def by blast
  then have 3: "laneTail failedRunM = Resolves"
    "map byLane (reported failedRunM) = [(True, ''boom''), (False, ''late'')]"
    by (simp_all add: reportsMatch_def failedRunM_calls failedCallsM_def)
  from 1 2 3 4 5 6 7 failedRun_calls(2) failedRunM_calls(2,3) show ?thesis by blast
qed


subsection \<open>Deferred status registry\<close>

lemma registryOfD:
  "registryOf a = registryOf b \<Longrightarrow>
   DEFERRED_DISCORD_STATUS_BY_RUN a = DEFERRED_DISCORD_STATUS_BY_RUN b \<and>
   entries a = entries b \<and> nextEntry a = nextEntry b \<and>
   deferredDiscordStatusBridgeReady a = deferredDiscordStatusBridgeReady b \<and>
   listeners a = listeners b"
  by (simp add: registryOf_def)

lemma onController_registryOf [simp]: "registryOf (onController ref f w) = registryOf w"
  by (simp add: onController_def registryOf_def split: option.splits)

lemma afterDone_registryOf [simp]: "registryOf (afterDone now cref ra w) = registryOf w"
  using onController_registryOf [of cref "\<lambda>p. restoreInitial p now" w]
  by (simp add: afterDone_def) (simp add: registryOf_def)

lemma registryOf_awaiting [simp]: "registryOf (w\<lparr>awaiting := a\<rparr>) = registryOf w"
  by (simp add: registryOf_def)

lemma registryOf_controllers [simp]: "registryOf (w\<lparr>controllers := a\<rparr>) = registryOf w"
  by (simp add: registryOf_def)

lemma registryOf_flags [simp]: "registryOf (w\<lparr>deferredLifecycleStarted := a\<rparr>) = registryOf w"
  by (simp add: registryOf_def)

lemma settleEnd_registryOf [simp]: "registryOf (settleEnd now entry w) = registryOf w"
  by (simp add: settleEnd_def Let_def split: option.splits prod.splits)

lemma settleError_registryOf [simp]: "registryOf (settleError now entry w) = registryOf w"
  by (simp add: settleError_def)

lemma terminate_registryOf [simp]:
  "registryOf (terminateDeferredDiscordWaiting now ref w) = registryOf w"
  by (simp add: terminateDeferredDiscordWaiting_def split: option.splits)

lemma resumeAwaiting_registryOf [simp]:
  "registryOf (resumeAwaiting now cref as w) = registryOf w"
  by (induction now cref as w rule: resumeAwaiting.induct) simp_all

lemma controllerEvent_registryOf [simp]:
  "registryOf (controllerEvent now cref ev w) = registryOf w"
  by (simp add: controllerEvent_def Let_def split: option.splits prod.splits)

lemma sleepEnds_registryOf [simp]: "registryOf (sleepEnds now i w) = registryOf w"
  by (simp add: sleepEnds_def split: Await.splits)

lemma newController_registryOf [simp]: "registryOf (newController p w) = registryOf w"
  by (simp add: newController_def registryOf_def)

lemma registryInv_cong: "registryOf a = registryOf b \<Longrightarrow> registryInv a = registryInv b"
  by (simp add: registryInv_def registryOf_def)

lemma registryInv_initial: "registryInv initialWorld"
  by (simp add: registryInv_def initialWorld_def)

lemma setRetryCleanupTimer_fields [simp]:
  "DEFERRED_DISCORD_STATUS_BY_RUN (setRetryCleanupTimer x t w) = DEFERRED_DISCORD_STATUS_BY_RUN w"
  "nextEntry (setRetryCleanupTimer x t w) = nextEntry w"
  "deferredDiscordStatusBridgeReady (setRetryCleanupTimer x t w) = deferredDiscordStatusBridgeReady w"
  "listeners (setRetryCleanupTimer x t w) = listeners w"
  "controllers (setRetryCleanupTimer x t w) = controllers w"
  "awaiting (setRetryCleanupTimer x t w) = awaiting w"
  "deferredLifecycleStarted (setRetryCleanupTimer x t w) = deferredLifecycleStarted w"
  by (simp_all add: setRetryCleanupTimer_def split: option.splits)

lemma setRetryCleanupTimer_entries:
  "entries (setRetryCleanupTimer x t w) y =
     (if y = x then map_option (\<lambda>e. e\<lparr>retryCleanupTimer := t\<rparr>) (entries w x) else entries w y)"
  by (simp add: setRetryCleanupTimer_def split: option.splits)

lemma clearDeferred_fields [simp]:
  "DEFERRED_DISCORD_STATUS_BY_RUN (clearDeferredDiscordRetryCleanup x w) = DEFERRED_DISCORD_STATUS_BY_RUN w"
  "nextEntry (clearDeferredDiscordRetryCleanup x w) = nextEntry w"
  "deferredDiscordStatusBridgeReady (clearDeferredDiscordRetryCleanup x w)
     = deferredDiscordStatusBridgeReady w"
  "listeners (clearDeferredDiscordRetryCleanup x w) = listeners w"
  "controllers (clearDeferredDiscordRetryCleanup x w) = controllers w"
  "awaiting (clearDeferredDiscordRetryCleanup x w) = awaiting w"
  "deferredLifecycleStarted (clearDeferredDiscordRetryCleanup x w) = deferredLifecycleStarted w"
  by (simp_all add: clearDeferredDiscordRetryCleanup_def split: option.splits)

lemma clearDeferred_entries:
  "entries (clearDeferredDiscordRetryCleanup x w) y =
     (if y = x then map_option (\<lambda>e. e\<lparr>retryCleanupTimer := Idle\<rparr>) (entries w x) else entries w y)"
  by (auto simp: clearDeferredDiscordRetryCleanup_def setRetryCleanupTimer_entries
      split: option.splits)

lemma registryInv_setTimer:
  assumes "registryInv w"
  shows "registryInv (setRetryCleanupTimer x t w)"
  unfolding registryInv_def
proof (intro allI impI)
  fix k ref
  assume "DEFERRED_DISCORD_STATUS_BY_RUN (setRetryCleanupTimer x t w) k = Some ref"
  then have "DEFERRED_DISCORD_STATUS_BY_RUN w k = Some ref" by simp
  with assms obtain e where e: "ref < nextEntry w" "entries w ref = Some e" "entryRunId e = k"
    unfolding registryInv_def by blast
  then show "ref < nextEntry (setRetryCleanupTimer x t w) \<and>
      (\<exists>e. entries (setRetryCleanupTimer x t w) ref = Some e \<and> entryRunId e = k)"
    by (cases "ref = x") (simp_all add: setRetryCleanupTimer_entries)
qed

lemma registryInv_clearDeferred:
  "registryInv w \<Longrightarrow> registryInv (clearDeferredDiscordRetryCleanup x w)"
  by (simp add: clearDeferredDiscordRetryCleanup_def registryInv_setTimer split: option.splits)

lemma registryInv_delete:
  "registryInv w \<Longrightarrow> m = DEFERRED_DISCORD_STATUS_BY_RUN w \<Longrightarrow>
   registryInv (w\<lparr>DEFERRED_DISCORD_STATUS_BY_RUN := m(k := None)\<rparr>)"
  by (simp add: registryInv_def)

lemma unregister_absent:
  "DEFERRED_DISCORD_STATUS_BY_RUN w k = None \<Longrightarrow> unregisterDeferredDiscordStatus k w = (None, w)"
  by (simp add: unregisterDeferredDiscordStatus_def)

lemma unregister_present:
  "DEFERRED_DISCORD_STATUS_BY_RUN w k = Some ref \<Longrightarrow>
   unregisterDeferredDiscordStatus k w =
     (Some ref,
      (clearDeferredDiscordRetryCleanup ref w)
        \<lparr>DEFERRED_DISCORD_STATUS_BY_RUN := (DEFERRED_DISCORD_STATUS_BY_RUN w)(k := None)\<rparr>)"
  by (simp add: unregisterDeferredDiscordStatus_def Let_def)

lemma registryInv_unregister:
  assumes "registryInv w"
  shows "registryInv (snd (unregisterDeferredDiscordStatus k w))"
proof (cases "DEFERRED_DISCORD_STATUS_BY_RUN w k")
  case None
  then show ?thesis using assms by (simp add: unregister_absent)
next
  case (Some ref)
  have "registryInv ((clearDeferredDiscordRetryCleanup ref w)
        \<lparr>DEFERRED_DISCORD_STATUS_BY_RUN := (DEFERRED_DISCORD_STATUS_BY_RUN w)(k := None)\<rparr>)"
    by (rule registryInv_delete [OF registryInv_clearDeferred [OF assms]]) simp
  then show ?thesis
    by (simp add: unregister_present [OF Some])
qed

lemma registryInv_ensure:
  "registryInv (ensureDeferredDiscordStatusBridge w) = registryInv w"
  by (simp add: registryInv_def ensureDeferredDiscordStatusBridge_def)

lemma registryInv_insert:
  assumes "registryInv w" and "entryRunId e = k"
  shows "registryInv
     (w\<lparr>entries := (entries w)(nextEntry w \<mapsto> e),
        DEFERRED_DISCORD_STATUS_BY_RUN := (DEFERRED_DISCORD_STATUS_BY_RUN w)(k \<mapsto> nextEntry w),
        nextEntry := nextEntry w + 1\<rparr>)"
  unfolding registryInv_def
proof (intro allI impI)
  fix k' ref
  let ?w' = "w\<lparr>entries := (entries w)(nextEntry w \<mapsto> e),
        DEFERRED_DISCORD_STATUS_BY_RUN := (DEFERRED_DISCORD_STATUS_BY_RUN w)(k \<mapsto> nextEntry w),
        nextEntry := nextEntry w + 1\<rparr>"
  assume b: "DEFERRED_DISCORD_STATUS_BY_RUN ?w' k' = Some ref"
  show "ref < nextEntry ?w' \<and> (\<exists>e. entries ?w' ref = Some e \<and> entryRunId e = k')"
  proof (cases "k' = k")
    case True
    with b assms(2) show ?thesis by simp
  next
    case False
    with b have "DEFERRED_DISCORD_STATUS_BY_RUN w k' = Some ref" by simp
    with assms(1) obtain e' where "ref < nextEntry w" "entries w ref = Some e'" "entryRunId e' = k'"
      unfolding registryInv_def by blast
    then show ?thesis by simp
  qed
qed

lemma register_blank:
  "trim (entryRunId entry) = [] \<Longrightarrow> registerDeferredDiscordStatus entry w = w"
  by (simp add: registerDeferredDiscordStatus_def)

lemma register_eq:
  assumes "trim (entryRunId entry) \<noteq> []"
  shows "registerDeferredDiscordStatus entry w =
     (let w2 = snd (unregisterDeferredDiscordStatus (trim (entryRunId entry))
                  (ensureDeferredDiscordStatusBridge w))
      in w2\<lparr>entries := (entries w2)(nextEntry w2 \<mapsto>
                 entry\<lparr>entryRunId := trim (entryRunId entry), retryCleanupTimer := Idle\<rparr>),
            DEFERRED_DISCORD_STATUS_BY_RUN :=
              (DEFERRED_DISCORD_STATUS_BY_RUN w2)(trim (entryRunId entry) \<mapsto> nextEntry w2),
            nextEntry := nextEntry w2 + 1\<rparr>)"
  using assms by (simp add: registerDeferredDiscordStatus_def Let_def)

lemma registryInv_register:
  assumes "registryInv w"
  shows "registryInv (registerDeferredDiscordStatus entry w)"
proof (cases "trim (entryRunId entry) = []")
  case True
  then show ?thesis using assms by (simp add: register_blank)
next
  case False
  let ?w2 = "snd (unregisterDeferredDiscordStatus (trim (entryRunId entry))
                  (ensureDeferredDiscordStatusBridge w))"
  have "registryInv ?w2"
    using assms by (intro registryInv_unregister) (simp add: registryInv_ensure)
  then show ?thesis
    unfolding register_eq [OF False] Let_def
    by (rule registryInv_insert) simp
qed

lemma registryInv_schedule:
  "registryInv w \<Longrightarrow> registryInv (scheduleDeferredDiscordRetryCleanup now ref w)"
  by (simp add: scheduleDeferredDiscordRetryCleanup_def registryInv_setTimer
      registryInv_clearDeferred)

lemma registryInv_frame:
  "registryOf a = registryOf b \<Longrightarrow> registryInv b \<Longrightarrow> registryInv a"
  using registryInv_cong by blast

lemma registryInv_listener:
  assumes "registryInv w"
  shows "registryInv (deferredStatusListener now evt w)"
proof (cases "DEFERRED_DISCORD_STATUS_BY_RUN w (evRunId evt)")
  case None
  then show ?thesis using assms by (simp add: deferredStatusListener_def)
next
  case (Some ref)
  show ?thesis
  proof (cases "entries w ref")
    case None
    then show ?thesis using assms Some by (simp add: deferredStatusListener_def)
  next
    case (Some entry)
    note ref = \<open>DEFERRED_DISCORD_STATUS_BY_RUN w (evRunId evt) = Some ref\<close>
    have start: "\<And>f. registryInv (onController (controllerRef entry) f
        (case onLifecycleStart entry of
           None \<Rightarrow> clearDeferredDiscordRetryCleanup ref w
         | Some h \<Rightarrow> (clearDeferredDiscordRetryCleanup ref w)
             \<lparr>deferredLifecycleStarted :=
                insert h (deferredLifecycleStarted (clearDeferredDiscordRetryCleanup ref w))\<rparr>))"
    proof -
      fix f
      have "registryInv (clearDeferredDiscordRetryCleanup ref w)"
        using assms by (rule registryInv_clearDeferred)
      then show "registryInv (onController (controllerRef entry) f
        (case onLifecycleStart entry of
           None \<Rightarrow> clearDeferredDiscordRetryCleanup ref w
         | Some h \<Rightarrow> (clearDeferredDiscordRetryCleanup ref w)
             \<lparr>deferredLifecycleStarted :=
                insert h (deferredLifecycleStarted (clearDeferredDiscordRetryCleanup ref w))\<rparr>))"
        by (intro registryInv_frame [OF onController_registryOf])
          (cases "onLifecycleStart entry"; simp add: registryInv_def)
    qed
    have err: "registryInv (settleError now entry (scheduleDeferredDiscordRetryCleanup now ref w))"
      using assms by (intro registryInv_frame [OF settleError_registryOf] registryInv_schedule)
    have fin: "registryInv (settleEnd now entry (snd (unregisterDeferredDiscordStatus (evRunId evt) w)))"
      using assms by (intro registryInv_frame [OF settleEnd_registryOf] registryInv_unregister)
    have tl: "\<And>f. registryInv (onController (controllerRef entry) f w)"
      using assms by (intro registryInv_frame [OF onController_registryOf])
    show ?thesis
      using ref Some start err fin tl assms
      by (simp add: deferredStatusListener_def Let_def)
  qed
qed

lemma funpow_invariant:
  assumes "\<And>x. P x \<Longrightarrow> P (f x)" and "P x"
  shows "P ((f ^^ n) x)"
  using assms(2) by (induction n) (simp_all add: assms(1))

lemma registryInv_emit: "registryInv w \<Longrightarrow> registryInv (emitAgentEvent now evt w)"
  unfolding emitAgentEvent_def
  by (rule funpow_invariant [where P = registryInv]) (rule registryInv_listener)

lemma registryInv_timerFires:
  assumes "registryInv w"
  shows "registryInv (retryCleanupTimerFires now ref w)"
proof (cases "entries w ref")
  case None
  then show ?thesis using assms by (simp add: retryCleanupTimerFires_def)
next
  case (Some entry)
  let ?w1 = "setRetryCleanupTimer ref Spent w"
  have 1: "registryInv ?w1" using assms by (rule registryInv_setTimer)
  have 2: "registryInv (setRetryCleanupTimer ref Idle
      (?w1\<lparr>DEFERRED_DISCORD_STATUS_BY_RUN :=
            (DEFERRED_DISCORD_STATUS_BY_RUN w)(entryRunId entry := None)\<rparr>))"
    by (intro registryInv_setTimer registryInv_delete [OF 1]) simp
  show ?thesis
    using Some assms 1 2 by (simp add: retryCleanupTimerFires_def Let_def)
qed

lemma registryInv_step:
  assumes "registryInv w"
  shows "registryInv (worldStep (now, ev) w)"
proof (cases ev)
  case (NewController p)
  then show ?thesis
    using assms registryInv_frame [OF newController_registryOf] by simp
next
  case (Register entry)
  then show ?thesis using assms by (simp add: registryInv_register)
next
  case (Unregister k)
  then show ?thesis using assms by (simp add: registryInv_unregister)
next
  case (TerminateWaiting ref)
  then show ?thesis
    using assms registryInv_frame [OF terminate_registryOf] by simp
next
  case (AgentEventEmitted evt)
  then show ?thesis using assms by (simp add: registryInv_emit)
next
  case (RetryCleanupTimerFires ref)
  then show ?thesis using assms by (simp add: registryInv_timerFires)
next
  case (OnController cref cev)
  then show ?thesis
    using assms registryInv_frame [OF controllerEvent_registryOf] by simp
next
  case (SleepEnds i)
  then show ?thesis
    using assms registryInv_frame [OF sleepEnds_registryOf] by simp
qed

lemma registryInv_run: "registryInv w \<Longrightarrow> registryInv (worldRun evs w)"
proof (induction evs arbitrary: w)
  case Nil
  then show ?case by simp
next
  case (Cons x evs)
  obtain t ev where x: "x = (t, ev)" by (cases x)
  from Cons.prems have "registryInv (worldStep (t, ev) w)"
    by (rule registryInv_step)
  then show ?case
    using Cons.IH by (simp add: x)
qed

lemma trim_Nil_iff: "trim s = [] \<longleftrightarrow> list_all isWhiteSpace s"
proof
  assume "list_all isWhiteSpace s"
  then have "\<forall>x\<in>set s. isWhiteSpace x"
    unfolding list_all_iff .
  then have d: "dropWhile isWhiteSpace s = []"
    unfolding dropWhile_eq_Nil_conv .
  show "trim s = []"
    unfolding trim_def d by simp
next
  assume t: "trim s = []"
  show "list_all isWhiteSpace s"
  proof (rule ccontr)
    assume "\<not> list_all isWhiteSpace s"
    then have ne: "dropWhile isWhiteSpace s \<noteq> []"
      unfolding list_all_iff dropWhile_eq_Nil_conv .
    then have "\<not> isWhiteSpace (hd (dropWhile isWhiteSpace s))"
      by (rule hd_dropWhile)
    moreover have "hd (dropWhile isWhiteSpace s) \<in> set (rev (dropWhile isWhiteSpace s))"
      using ne by simp
    ultimately have "dropWhile isWhiteSpace (rev (dropWhile isWhiteSpace s)) \<noteq> []"
      unfolding dropWhile_eq_Nil_conv by blast
    then have "rev (dropWhile isWhiteSpace (rev (dropWhile isWhiteSpace s))) \<noteq> []"
      unfolding rev_is_Nil_conv .
    with t show False
      unfolding trim_def by blast
  qed
qed

lemma unregister_fields:
  "nextEntry (snd (unregisterDeferredDiscordStatus k w)) = nextEntry w"
  "DEFERRED_DISCORD_STATUS_BY_RUN (snd (unregisterDeferredDiscordStatus k w))
     = (DEFERRED_DISCORD_STATUS_BY_RUN w)(k := None)"
  "entries (snd (unregisterDeferredDiscordStatus k w)) y =
     (if DEFERRED_DISCORD_STATUS_BY_RUN w k = Some y
      then map_option (\<lambda>e. e\<lparr>retryCleanupTimer := Idle\<rparr>) (entries w y) else entries w y)"
  "deferredDiscordStatusBridgeReady (snd (unregisterDeferredDiscordStatus k w))
     = deferredDiscordStatusBridgeReady w"
  "listeners (snd (unregisterDeferredDiscordStatus k w)) = listeners w"
  "controllers (snd (unregisterDeferredDiscordStatus k w)) = controllers w"
  "fst (unregisterDeferredDiscordStatus k w) = DEFERRED_DISCORD_STATUS_BY_RUN w k"
proof -
  show "nextEntry (snd (unregisterDeferredDiscordStatus k w)) = nextEntry w"
    by (cases "DEFERRED_DISCORD_STATUS_BY_RUN w k")
      (simp_all add: unregister_absent unregister_present)
  show "DEFERRED_DISCORD_STATUS_BY_RUN (snd (unregisterDeferredDiscordStatus k w))
     = (DEFERRED_DISCORD_STATUS_BY_RUN w)(k := None)"
    by (cases "DEFERRED_DISCORD_STATUS_BY_RUN w k")
      (auto simp: unregister_absent unregister_present fun_eq_iff)
  show "entries (snd (unregisterDeferredDiscordStatus k w)) y =
     (if DEFERRED_DISCORD_STATUS_BY_RUN w k = Some y
      then map_option (\<lambda>e. e\<lparr>retryCleanupTimer := Idle\<rparr>) (entries w y) else entries w y)"
    by (cases "DEFERRED_DISCORD_STATUS_BY_RUN w k")
      (auto simp: unregister_absent unregister_present clearDeferred_entries)
  show "deferredDiscordStatusBridgeReady (snd (unregisterDeferredDiscordStatus k w))
     = deferredDiscordStatusBridgeReady w"
    by (cases "DEFERRED_DISCORD_STATUS_BY_RUN w k")
      (simp_all add: unregister_absent unregister_present)
  show "listeners (snd (unregisterDeferredDiscordStatus k w)) = listeners w"
    by (cases "DEFERRED_DISCORD_STATUS_BY_RUN w k")
      (simp_all add: unregister_absent unregister_present)
  show "controllers (snd (unregisterDeferredDiscordStatus k w)) = controllers w"
    by (cases "DEFERRED_DISCORD_STATUS_BY_RUN w k")
      (simp_all add: unregister_absent unregister_present)
  show "fst (unregisterDeferredDiscordStatus k w) = DEFERRED_DISCORD_STATUS_BY_RUN w k"
    by (cases "DEFERRED_DISCORD_STATUS_BY_RUN w k")
      (simp_all add: unregister_absent unregister_present)
qed

lemma ensure_fields [simp]:
  "nextEntry (ensureDeferredDiscordStatusBridge w) = nextEntry w"
  "DEFERRED_DISCORD_STATUS_BY_RUN (ensureDeferredDiscordStatusBridge w)
     = DEFERRED_DISCORD_STATUS_BY_RUN w"
  "entries (ensureDeferredDiscordStatusBridge w) = entries w"
  "controllers (ensureDeferredDiscordStatusBridge w) = controllers w"
  by (simp_all add: ensureDeferredDiscordStatusBridge_def)

lemma register_fields:
  assumes "trim (entryRunId entry) = r" and "r \<noteq> []"
  shows "DEFERRED_DISCORD_STATUS_BY_RUN (registerDeferredDiscordStatus entry w)
           = (DEFERRED_DISCORD_STATUS_BY_RUN w)(r \<mapsto> nextEntry w)"
    and "entries (registerDeferredDiscordStatus entry w) y =
           (if y = nextEntry w then Some (entry\<lparr>entryRunId := r, retryCleanupTimer := Idle\<rparr>)
            else if DEFERRED_DISCORD_STATUS_BY_RUN w r = Some y
              then map_option (\<lambda>e. e\<lparr>retryCleanupTimer := Idle\<rparr>) (entries w y)
            else entries w y)"
    and "nextEntry (registerDeferredDiscordStatus entry w) = nextEntry w + 1"
    and "deferredDiscordStatusBridgeReady (registerDeferredDiscordStatus entry w)"
    and "controllers (registerDeferredDiscordStatus entry w) = controllers w"
proof -
  have ne: "trim (entryRunId entry) \<noteq> []" using assms by simp
  show "DEFERRED_DISCORD_STATUS_BY_RUN (registerDeferredDiscordStatus entry w)
           = (DEFERRED_DISCORD_STATUS_BY_RUN w)(r \<mapsto> nextEntry w)"
    unfolding register_eq [OF ne] Let_def using assms(1) by (simp add: unregister_fields)
  show "entries (registerDeferredDiscordStatus entry w) y =
           (if y = nextEntry w then Some (entry\<lparr>entryRunId := r, retryCleanupTimer := Idle\<rparr>)
            else if DEFERRED_DISCORD_STATUS_BY_RUN w r = Some y
              then map_option (\<lambda>e. e\<lparr>retryCleanupTimer := Idle\<rparr>) (entries w y)
            else entries w y)"
    unfolding register_eq [OF ne] Let_def using assms(1) by (simp add: unregister_fields)
  show "nextEntry (registerDeferredDiscordStatus entry w) = nextEntry w + 1"
    unfolding register_eq [OF ne] Let_def by (simp add: unregister_fields)
  show "deferredDiscordStatusBridgeReady (registerDeferredDiscordStatus entry w)"
    unfolding register_eq [OF ne] Let_def
    by (simp add: unregister_fields ensureDeferredDiscordStatusBridge_def)
  show "controllers (registerDeferredDiscordStatus entry w) = controllers w"
    unfolding register_eq [OF ne] Let_def by (simp add: unregister_fields)
qed

text \<open>
  C6. Take the module as any sequence of events leaves it. No entry is in the map under two
  identifiers, and the entry under an identifier carries that identifier: the map holds at
  most one entry for a run. Registering under an identifier that is not blank stores a new
  entry object there, with the fields of the argument, the identifier trimmed and no timer,
  and leaves the other identifiers alone; an entry that was there before has its timer
  cleared and is in the map no more. Removing an identifier that is not in the map returns
  nothing and changes nothing; removing one that is returns its entry, with the timer
  cleared, and takes it out of the map, leaving the other identifiers alone.
\<close>

theorem registry_one_entry_per_run:
  assumes "w = worldRun evs initialWorld"
  shows "(\<forall>k1 k2 ref. DEFERRED_DISCORD_STATUS_BY_RUN w k1 = Some ref \<and>
            DEFERRED_DISCORD_STATUS_BY_RUN w k2 = Some ref \<longrightarrow> k1 = k2) \<and>
         (\<forall>k ref. DEFERRED_DISCORD_STATUS_BY_RUN w k = Some ref \<longrightarrow>
            (\<exists>e. entries w ref = Some e \<and> entryRunId e = k)) \<and>
         (\<forall>entry r. trim (entryRunId entry) = r \<and> r \<noteq> [] \<longrightarrow>
            DEFERRED_DISCORD_STATUS_BY_RUN (registerDeferredDiscordStatus entry w) r
              = Some (nextEntry w) \<and>
            entries (registerDeferredDiscordStatus entry w) (nextEntry w)
              = Some (entry\<lparr>entryRunId := r, retryCleanupTimer := Idle\<rparr>) \<and>
            (\<forall>k. k \<noteq> r \<longrightarrow>
               DEFERRED_DISCORD_STATUS_BY_RUN (registerDeferredDiscordStatus entry w) k
                 = DEFERRED_DISCORD_STATUS_BY_RUN w k) \<and>
            (\<forall>old. DEFERRED_DISCORD_STATUS_BY_RUN w r = Some old \<longrightarrow>
               old \<noteq> nextEntry w \<and>
               map_option retryCleanupTimer (entries (registerDeferredDiscordStatus entry w) old)
                 = Some Idle \<and>
               (\<forall>k. DEFERRED_DISCORD_STATUS_BY_RUN (registerDeferredDiscordStatus entry w) k
                  \<noteq> Some old))) \<and>
         (\<forall>k. DEFERRED_DISCORD_STATUS_BY_RUN w k = None \<longrightarrow>
            unregisterDeferredDiscordStatus k w = (None, w)) \<and>
         (\<forall>k ref. DEFERRED_DISCORD_STATUS_BY_RUN w k = Some ref \<longrightarrow>
            fst (unregisterDeferredDiscordStatus k w) = Some ref \<and>
            DEFERRED_DISCORD_STATUS_BY_RUN (snd (unregisterDeferredDiscordStatus k w)) k = None \<and>
            map_option retryCleanupTimer (entries (snd (unregisterDeferredDiscordStatus k w)) ref)
              = Some Idle \<and>
            (\<forall>k'. k' \<noteq> k \<longrightarrow>
               DEFERRED_DISCORD_STATUS_BY_RUN (snd (unregisterDeferredDiscordStatus k w)) k'
                 = DEFERRED_DISCORD_STATUS_BY_RUN w k'))"
proof -
  have inv: "registryInv w"
    unfolding assms by (intro registryInv_run registryInv_initial)
  have held: "\<And>k ref. DEFERRED_DISCORD_STATUS_BY_RUN w k = Some ref \<Longrightarrow>
      ref < nextEntry w \<and> (\<exists>e. entries w ref = Some e \<and> entryRunId e = k)"
    using inv unfolding registryInv_def by blast
  have one: "\<forall>k1 k2 ref. DEFERRED_DISCORD_STATUS_BY_RUN w k1 = Some ref \<and>
            DEFERRED_DISCORD_STATUS_BY_RUN w k2 = Some ref \<longrightarrow> k1 = k2"
  proof (intro allI impI)
    fix k1 k2 ref
    assume a: "DEFERRED_DISCORD_STATUS_BY_RUN w k1 = Some ref \<and>
            DEFERRED_DISCORD_STATUS_BY_RUN w k2 = Some ref"
    from held [of k1 ref] held [of k2 ref] a show "k1 = k2" by auto
  qed
  have car: "\<forall>k ref. DEFERRED_DISCORD_STATUS_BY_RUN w k = Some ref \<longrightarrow>
            (\<exists>e. entries w ref = Some e \<and> entryRunId e = k)"
    using held by blast
  have reg: "\<forall>entry r. trim (entryRunId entry) = r \<and> r \<noteq> [] \<longrightarrow>
            DEFERRED_DISCORD_STATUS_BY_RUN (registerDeferredDiscordStatus entry w) r
              = Some (nextEntry w) \<and>
            entries (registerDeferredDiscordStatus entry w) (nextEntry w)
              = Some (entry\<lparr>entryRunId := r, retryCleanupTimer := Idle\<rparr>) \<and>
            (\<forall>k. k \<noteq> r \<longrightarrow>
               DEFERRED_DISCORD_STATUS_BY_RUN (registerDeferredDiscordStatus entry w) k
                 = DEFERRED_DISCORD_STATUS_BY_RUN w k) \<and>
            (\<forall>old. DEFERRED_DISCORD_STATUS_BY_RUN w r = Some old \<longrightarrow>
               old \<noteq> nextEntry w \<and>
               map_option retryCleanupTimer (entries (registerDeferredDiscordStatus entry w) old)
                 = Some Idle \<and>
               (\<forall>k. DEFERRED_DISCORD_STATUS_BY_RUN (registerDeferredDiscordStatus entry w) k
                  \<noteq> Some old))"
  proof (intro allI impI)
    fix entry :: DeferredDiscordStatusEntry and r
    assume a: "trim (entryRunId entry) = r \<and> r \<noteq> []"
    then have t: "trim (entryRunId entry) = r" and ne: "r \<noteq> []" by auto
    note f = register_fields [OF t ne, of w]
    have old: "\<forall>old. DEFERRED_DISCORD_STATUS_BY_RUN w r = Some old \<longrightarrow>
               old \<noteq> nextEntry w \<and>
               map_option retryCleanupTimer (entries (registerDeferredDiscordStatus entry w) old)
                 = Some Idle \<and>
               (\<forall>k. DEFERRED_DISCORD_STATUS_BY_RUN (registerDeferredDiscordStatus entry w) k
                  \<noteq> Some old)"
    proof (intro allI impI)
      fix old
      assume o: "DEFERRED_DISCORD_STATUS_BY_RUN w r = Some old"
      from held [OF o] obtain e where lt: "old < nextEntry w" and e: "entries w old = Some e"
        by blast
      have gone: "\<forall>k. DEFERRED_DISCORD_STATUS_BY_RUN (registerDeferredDiscordStatus entry w) k
                  \<noteq> Some old"
      proof
        fix k
        show "DEFERRED_DISCORD_STATUS_BY_RUN (registerDeferredDiscordStatus entry w) k \<noteq> Some old"
        proof (cases "k = r")
          case True
          then show ?thesis using lt by (simp add: f(1))
        next
          case False
          with one o show ?thesis by (auto simp: f(1))
        qed
      qed
      from lt e o gone show "old \<noteq> nextEntry w \<and>
               map_option retryCleanupTimer (entries (registerDeferredDiscordStatus entry w) old)
                 = Some Idle \<and>
               (\<forall>k. DEFERRED_DISCORD_STATUS_BY_RUN (registerDeferredDiscordStatus entry w) k
                  \<noteq> Some old)"
        by (simp add: f(2))
    qed
    have a1: "DEFERRED_DISCORD_STATUS_BY_RUN (registerDeferredDiscordStatus entry w) r
              = Some (nextEntry w)"
      by (simp add: f(1))
    have a2: "entries (registerDeferredDiscordStatus entry w) (nextEntry w)
              = Some (entry\<lparr>entryRunId := r, retryCleanupTimer := Idle\<rparr>)"
      by (simp add: f(2))
    have a3: "\<forall>k. k \<noteq> r \<longrightarrow>
               DEFERRED_DISCORD_STATUS_BY_RUN (registerDeferredDiscordStatus entry w) k
                 = DEFERRED_DISCORD_STATUS_BY_RUN w k"
      by (simp add: f(1))
    from a1 a2 a3 old
    show "DEFERRED_DISCORD_STATUS_BY_RUN (registerDeferredDiscordStatus entry w) r
              = Some (nextEntry w) \<and>
            entries (registerDeferredDiscordStatus entry w) (nextEntry w)
              = Some (entry\<lparr>entryRunId := r, retryCleanupTimer := Idle\<rparr>) \<and>
            (\<forall>k. k \<noteq> r \<longrightarrow>
               DEFERRED_DISCORD_STATUS_BY_RUN (registerDeferredDiscordStatus entry w) k
                 = DEFERRED_DISCORD_STATUS_BY_RUN w k) \<and>
            (\<forall>old. DEFERRED_DISCORD_STATUS_BY_RUN w r = Some old \<longrightarrow>
               old \<noteq> nextEntry w \<and>
               map_option retryCleanupTimer (entries (registerDeferredDiscordStatus entry w) old)
                 = Some Idle \<and>
               (\<forall>k. DEFERRED_DISCORD_STATUS_BY_RUN (registerDeferredDiscordStatus entry w) k
                  \<noteq> Some old))"
      by blast
  qed
  have un1: "\<forall>k. DEFERRED_DISCORD_STATUS_BY_RUN w k = None \<longrightarrow>
            unregisterDeferredDiscordStatus k w = (None, w)"
    by (simp add: unregister_absent)
  have un2: "\<forall>k ref. DEFERRED_DISCORD_STATUS_BY_RUN w k = Some ref \<longrightarrow>
            fst (unregisterDeferredDiscordStatus k w) = Some ref \<and>
            DEFERRED_DISCORD_STATUS_BY_RUN (snd (unregisterDeferredDiscordStatus k w)) k = None \<and>
            map_option retryCleanupTimer (entries (snd (unregisterDeferredDiscordStatus k w)) ref)
              = Some Idle \<and>
            (\<forall>k'. k' \<noteq> k \<longrightarrow>
               DEFERRED_DISCORD_STATUS_BY_RUN (snd (unregisterDeferredDiscordStatus k w)) k'
                 = DEFERRED_DISCORD_STATUS_BY_RUN w k')"
  proof (intro allI impI)
    fix k ref
    assume b: "DEFERRED_DISCORD_STATUS_BY_RUN w k = Some ref"
    from held [OF b] obtain e where "entries w ref = Some e" by blast
    with b show "fst (unregisterDeferredDiscordStatus k w) = Some ref \<and>
            DEFERRED_DISCORD_STATUS_BY_RUN (snd (unregisterDeferredDiscordStatus k w)) k = None \<and>
            map_option retryCleanupTimer (entries (snd (unregisterDeferredDiscordStatus k w)) ref)
              = Some Idle \<and>
            (\<forall>k'. k' \<noteq> k \<longrightarrow>
               DEFERRED_DISCORD_STATUS_BY_RUN (snd (unregisterDeferredDiscordStatus k w)) k'
                 = DEFERRED_DISCORD_STATUS_BY_RUN w k')"
      by (simp add: unregister_fields)
  qed
  from one car reg un1 un2 show ?thesis by blast
qed

text \<open>
  C9. Registering an entry whose run identifier is empty or made of white space only changes
  nothing: the map, the entries, the flag of the bridge and the number of subscribed
  listeners are as before.
\<close>

theorem register_blank_is_noop:
  assumes "list_all isWhiteSpace (entryRunId entry)"
  shows "registerDeferredDiscordStatus entry w = w \<and>
         DEFERRED_DISCORD_STATUS_BY_RUN (registerDeferredDiscordStatus entry w)
           = DEFERRED_DISCORD_STATUS_BY_RUN w \<and>
         entries (registerDeferredDiscordStatus entry w) = entries w \<and>
         deferredDiscordStatusBridgeReady (registerDeferredDiscordStatus entry w)
           = deferredDiscordStatusBridgeReady w \<and>
         listeners (registerDeferredDiscordStatus entry w) = listeners w"
proof -
  from assms have "trim (entryRunId entry) = []"
    by (simp add: trim_Nil_iff)
  then have "registerDeferredDiscordStatus entry w = w"
    by (rule register_blank)
  then show ?thesis by simp
qed

subsection \<open>Cleanup of deferred entries\<close>

lemma awaitsCleanup_frame:
  "registryOf a = registryOf b \<Longrightarrow> awaitsCleanup r ref d b \<Longrightarrow> awaitsCleanup r ref d a"
  using registryInv_cong [of a b] by (simp add: awaitsCleanup_def registryOf_def)

lemma awaitsCleanup_other:
  assumes "awaitsCleanup r ref d w" and "DEFERRED_DISCORD_STATUS_BY_RUN w k = Some x" and "k \<noteq> r"
  shows "x \<noteq> ref"
proof
  assume "x = ref"
  with assms(1,2) have "\<exists>e. entries w ref = Some e \<and> entryRunId e = k"
    and "\<exists>e. entries w ref = Some e \<and> entryRunId e = r"
    unfolding awaitsCleanup_def registryInv_def by blast+
  with assms(3) show False by auto
qed

lemma awaitsCleanup_setTimer:
  assumes "awaitsCleanup r ref d w" and "x \<noteq> ref"
  shows "awaitsCleanup r ref d (setRetryCleanupTimer x t w)"
  using assms
  by (simp add: awaitsCleanup_def registryInv_setTimer setRetryCleanupTimer_entries)

lemma awaitsCleanup_clearDeferred:
  assumes "awaitsCleanup r ref d w" and "x \<noteq> ref"
  shows "awaitsCleanup r ref d (clearDeferredDiscordRetryCleanup x w)"
  using assms
  by (simp add: awaitsCleanup_def registryInv_clearDeferred clearDeferred_entries)

lemma awaitsCleanup_unregister:
  assumes "awaitsCleanup r ref d w" and "k \<noteq> r"
  shows "awaitsCleanup r ref d (snd (unregisterDeferredDiscordStatus k w))"
proof -
  have "\<And>x. DEFERRED_DISCORD_STATUS_BY_RUN w k = Some x \<Longrightarrow> x \<noteq> ref"
    using awaitsCleanup_other [OF assms(1) _ assms(2)] by blast
  then show ?thesis
    using assms
    by (auto simp: awaitsCleanup_def registryInv_unregister unregister_fields)
qed

lemma awaitsCleanup_register:
  assumes "awaitsCleanup r ref d w" and "trim (entryRunId entry) \<noteq> r"
  shows "awaitsCleanup r ref d (registerDeferredDiscordStatus entry w)"
proof (cases "trim (entryRunId entry) = []")
  case True
  then show ?thesis using assms(1) by (simp add: register_blank)
next
  case False
  note f = register_fields [OF refl False, of w]
  have lt: "ref < nextEntry w"
    using assms(1) unfolding awaitsCleanup_def registryInv_def by blast
  have o: "\<And>x. DEFERRED_DISCORD_STATUS_BY_RUN w (trim (entryRunId entry)) = Some x \<Longrightarrow> x \<noteq> ref"
    using awaitsCleanup_other [OF assms(1) _ assms(2)] by blast
  have "registryInv (registerDeferredDiscordStatus entry w)"
    using assms(1) by (simp add: awaitsCleanup_def registryInv_register)
  then show ?thesis
    using assms lt o by (auto simp: awaitsCleanup_def f(1,2))
qed

lemma awaitsCleanup_listener:
  assumes "awaitsCleanup r ref d w" and "evRunId evt \<noteq> r"
  shows "awaitsCleanup r ref d (deferredStatusListener now evt w)"
proof (cases "DEFERRED_DISCORD_STATUS_BY_RUN w (evRunId evt)")
  case None
  then show ?thesis using assms by (simp add: deferredStatusListener_def)
next
  case (Some x)
  have x: "x \<noteq> ref"
    using awaitsCleanup_other [OF assms(1) Some assms(2)] .
  show ?thesis
  proof (cases "entries w x")
    case None
    then show ?thesis using assms Some by (simp add: deferredStatusListener_def)
  next
    case (Some entry)
    note ref = \<open>DEFERRED_DISCORD_STATUS_BY_RUN w (evRunId evt) = Some x\<close>
    have c: "awaitsCleanup r ref d (clearDeferredDiscordRetryCleanup x w)"
      using assms(1) x by (rule awaitsCleanup_clearDeferred)
    have start: "\<And>f. awaitsCleanup r ref d (onController (controllerRef entry) f
        (case onLifecycleStart entry of
           None \<Rightarrow> clearDeferredDiscordRetryCleanup x w
         | Some h \<Rightarrow> (clearDeferredDiscordRetryCleanup x w)
             \<lparr>deferredLifecycleStarted :=
                insert h (deferredLifecycleStarted (clearDeferredDiscordRetryCleanup x w))\<rparr>))"
      using c
      by (intro awaitsCleanup_frame [OF onController_registryOf])
        (cases "onLifecycleStart entry";
          simp add: awaitsCleanup_frame [OF registryOf_flags])
    have err: "awaitsCleanup r ref d
        (settleError now entry (scheduleDeferredDiscordRetryCleanup now x w))"
      unfolding scheduleDeferredDiscordRetryCleanup_def
      by (intro awaitsCleanup_frame [OF settleError_registryOf] awaitsCleanup_setTimer c x)
    have fin: "awaitsCleanup r ref d
        (settleEnd now entry (snd (unregisterDeferredDiscordStatus (evRunId evt) w)))"
      by (intro awaitsCleanup_frame [OF settleEnd_registryOf] awaitsCleanup_unregister assms)
    have tl: "\<And>f. awaitsCleanup r ref d (onController (controllerRef entry) f w)"
      using assms(1) by (intro awaitsCleanup_frame [OF onController_registryOf])
    show ?thesis
      using ref Some start err fin tl assms(1)
      by (simp add: deferredStatusListener_def Let_def)
  qed
qed

lemma awaitsCleanup_emit:
  assumes "awaitsCleanup r ref d w" and "evRunId evt \<noteq> r"
  shows "awaitsCleanup r ref d (emitAgentEvent now evt w)"
  unfolding emitAgentEvent_def
  by (rule funpow_invariant [where P = "awaitsCleanup r ref d"])
    (simp_all add: awaitsCleanup_listener assms)

lemma awaitsCleanup_timerFires:
  assumes "awaitsCleanup r ref d w" and "x \<noteq> ref"
  shows "awaitsCleanup r ref d (retryCleanupTimerFires now x w)"
proof (cases "entries w x")
  case None
  then show ?thesis using assms by (simp add: retryCleanupTimerFires_def)
next
  case (Some entry)
  let ?w1 = "setRetryCleanupTimer x Spent w"
  have 1: "awaitsCleanup r ref d ?w1"
    using assms by (rule awaitsCleanup_setTimer)
  have 2: "awaitsCleanup r ref d (setRetryCleanupTimer x Idle
      (?w1\<lparr>DEFERRED_DISCORD_STATUS_BY_RUN :=
            (DEFERRED_DISCORD_STATUS_BY_RUN w)(entryRunId entry := None)\<rparr>))"
    if b: "DEFERRED_DISCORD_STATUS_BY_RUN w (entryRunId entry) = Some x"
  proof -
    have k: "entryRunId entry \<noteq> r"
      using assms b by (auto simp: awaitsCleanup_def)
    have "awaitsCleanup r ref d
        (?w1\<lparr>DEFERRED_DISCORD_STATUS_BY_RUN :=
            (DEFERRED_DISCORD_STATUS_BY_RUN w)(entryRunId entry := None)\<rparr>)"
      using 1 k registryInv_delete [of ?w1 "DEFERRED_DISCORD_STATUS_BY_RUN w" "entryRunId entry"]
      by (simp add: awaitsCleanup_def)
    then show ?thesis
      using assms(2) by (rule awaitsCleanup_setTimer)
  qed
  show ?thesis
    using Some assms 1 2 by (simp add: retryCleanupTimerFires_def Let_def)
qed

lemma awaitsCleanup_step:
  assumes "awaitsCleanup r ref d w" and "notAbout r ref ev"
  shows "awaitsCleanup r ref d (worldStep (t, ev) w)"
proof (cases ev)
  case (NewController p)
  then show ?thesis
    using assms awaitsCleanup_frame [OF newController_registryOf] by simp
next
  case (Register entry)
  then show ?thesis using assms by (simp add: awaitsCleanup_register)
next
  case (Unregister k)
  then show ?thesis using assms by (simp add: awaitsCleanup_unregister)
next
  case (TerminateWaiting x)
  then show ?thesis
    using assms awaitsCleanup_frame [OF terminate_registryOf] by simp
next
  case (AgentEventEmitted evt)
  then show ?thesis using assms by (simp add: awaitsCleanup_emit)
next
  case (RetryCleanupTimerFires x)
  then show ?thesis using assms by (simp add: awaitsCleanup_timerFires)
next
  case (OnController cref cev)
  then show ?thesis
    using assms awaitsCleanup_frame [OF controllerEvent_registryOf] by simp
next
  case (SleepEnds i)
  then show ?thesis
    using assms awaitsCleanup_frame [OF sleepEnds_registryOf] by simp
qed

lemma awaitsCleanup_run:
  assumes "awaitsCleanup r ref d w" and "list_all (\<lambda>(t, ev). notAbout r ref ev) evs"
  shows "awaitsCleanup r ref d (worldRun evs w)"
  using assms
proof (induction evs arbitrary: w)
  case Nil
  then show ?case by simp
next
  case (Cons x evs)
  obtain t ev where x: "x = (t, ev)" by (cases x)
  from Cons.prems x have n: "notAbout r ref ev" and rest: "list_all (\<lambda>(t, ev). notAbout r ref ev) evs"
    by auto
  from Cons.IH [OF awaitsCleanup_step [OF Cons.prems(1) n, of t] rest] show ?case
    by (simp add: x)
qed

lemma listener_unknown:
  "DEFERRED_DISCORD_STATUS_BY_RUN w (evRunId evt) = None \<Longrightarrow> deferredStatusListener now evt w = w"
  by (simp add: deferredStatusListener_def)

lemma emit_unknown:
  assumes "DEFERRED_DISCORD_STATUS_BY_RUN w (evRunId evt) = None"
  shows "emitAgentEvent now evt w = w"
proof -
  have "(deferredStatusListener now evt ^^ n) w = w" for n
    by (induction n) (simp_all add: listener_unknown [OF assms])
  then show ?thesis
    by (simp add: emitAgentEvent_def)
qed

lemma listener_error:
  assumes "registryInv w" and "DEFERRED_DISCORD_STATUS_BY_RUN w r = Some ref"
    and "evRunId evt = r" and "evStream evt = js ''lifecycle''"
    and "evPhase evt = Some (js ''error'')"
  shows "awaitsCleanup r ref (now + DISCORD_STATUS_DEFERRED_ERROR_RETRY_TTL_MS)
           (deferredStatusListener now evt w)"
proof -
  from assms(1,2) obtain e where e: "entries w ref = Some e"
    unfolding registryInv_def by blast
  have ne: "js ''error'' \<noteq> js ''start''"
    by (simp add: js_def)
  have l: "deferredStatusListener now evt w
      = settleError now e (scheduleDeferredDiscordRetryCleanup now ref w)"
    using assms(2-5) e ne by (simp add: deferredStatusListener_def)
  have "awaitsCleanup r ref (now + DISCORD_STATUS_DEFERRED_ERROR_RETRY_TTL_MS)
      (scheduleDeferredDiscordRetryCleanup now ref w)"
    using assms(1,2) e registryInv_schedule [OF assms(1), of now ref]
    by (simp add: awaitsCleanup_def scheduleDeferredDiscordRetryCleanup_def
        setRetryCleanupTimer_entries clearDeferred_entries)
  then show ?thesis
    unfolding l by (rule awaitsCleanup_frame [OF settleError_registryOf])
qed

lemma cleanup_fires:
  assumes "awaitsCleanup r ref d w"
  shows "t < d \<Longrightarrow> retryCleanupTimerFires t ref w = w"
    and "d \<le> t \<Longrightarrow>
      DEFERRED_DISCORD_STATUS_BY_RUN (retryCleanupTimerFires t ref w)
        = (DEFERRED_DISCORD_STATUS_BY_RUN w)(r := None) \<and>
      controllers (retryCleanupTimerFires t ref w) = controllers w \<and>
      map_option retryCleanupTimer (entries (retryCleanupTimerFires t ref w) ref) = Some Idle"
proof -
  from assms obtain e where e: "entries w ref = Some e" "entryRunId e = r"
    "retryCleanupTimer e = Armed d ()" "DEFERRED_DISCORD_STATUS_BY_RUN w r = Some ref"
    unfolding awaitsCleanup_def registryInv_def by force
  show "t < d \<Longrightarrow> retryCleanupTimerFires t ref w = w"
    using e by (simp add: retryCleanupTimerFires_def)
  show "d \<le> t \<Longrightarrow>
      DEFERRED_DISCORD_STATUS_BY_RUN (retryCleanupTimerFires t ref w)
        = (DEFERRED_DISCORD_STATUS_BY_RUN w)(r := None) \<and>
      controllers (retryCleanupTimerFires t ref w) = controllers w \<and>
      map_option retryCleanupTimer (entries (retryCleanupTimerFires t ref w) ref) = Some Idle"
    using e by (simp add: retryCleanupTimerFires_def Let_def setRetryCleanupTimer_entries)
qed

lemma shrinks_refl [simp]: "shrinks w w"
  by (simp add: shrinks_def)

lemma shrinks_trans: "shrinks a b \<Longrightarrow> shrinks b c \<Longrightarrow> shrinks a c"
  by (simp add: shrinks_def)

lemma shrinks_frame: "registryOf a = registryOf b \<Longrightarrow> shrinks a b"
  by (simp add: shrinks_def registryOf_def)

lemma bridgeInv_shrinks: "shrinks a b \<Longrightarrow> bridgeInv b \<Longrightarrow> bridgeInv a"
  unfolding bridgeInv_def shrinks_def by metis

lemma shrinks_setTimer: "shrinks (setRetryCleanupTimer x t w) w"
  by (simp add: shrinks_def)

lemma shrinks_clearDeferred: "shrinks (clearDeferredDiscordRetryCleanup x w) w"
  by (simp add: shrinks_def)

lemma shrinks_unregister: "shrinks (snd (unregisterDeferredDiscordStatus k w)) w"
  by (simp add: shrinks_def unregister_fields)

lemma shrinks_listener: "shrinks (deferredStatusListener now evt w) w"
proof (cases "DEFERRED_DISCORD_STATUS_BY_RUN w (evRunId evt)")
  case None
  then show ?thesis by (simp add: deferredStatusListener_def)
next
  case (Some x)
  show ?thesis
  proof (cases "entries w x")
    case None
    then show ?thesis using Some by (simp add: deferredStatusListener_def)
  next
    case (Some entry)
    note ref = \<open>DEFERRED_DISCORD_STATUS_BY_RUN w (evRunId evt) = Some x\<close>
    have start: "\<And>f. shrinks (onController (controllerRef entry) f
        (case onLifecycleStart entry of
           None \<Rightarrow> clearDeferredDiscordRetryCleanup x w
         | Some h \<Rightarrow> (clearDeferredDiscordRetryCleanup x w)
             \<lparr>deferredLifecycleStarted :=
                insert h (deferredLifecycleStarted (clearDeferredDiscordRetryCleanup x w))\<rparr>)) w"
      by (rule shrinks_trans [OF shrinks_frame [OF onController_registryOf]])
        (cases "onLifecycleStart entry"; simp add: shrinks_def)
    have err: "shrinks (settleError now entry (scheduleDeferredDiscordRetryCleanup now x w)) w"
      by (rule shrinks_trans [OF shrinks_frame [OF settleError_registryOf]])
        (simp add: shrinks_def scheduleDeferredDiscordRetryCleanup_def)
    have fin: "shrinks
        (settleEnd now entry (snd (unregisterDeferredDiscordStatus (evRunId evt) w))) w"
      by (rule shrinks_trans [OF shrinks_frame [OF settleEnd_registryOf] shrinks_unregister])
    have tl: "\<And>f. shrinks (onController (controllerRef entry) f w) w"
      by (rule shrinks_frame [OF onController_registryOf])
    show ?thesis
      using ref Some start err fin tl
      by (simp add: deferredStatusListener_def Let_def)
  qed
qed

lemma shrinks_emit: "shrinks (emitAgentEvent now evt w) w"
proof -
  have "shrinks ((deferredStatusListener now evt ^^ n) w) w" for n
    by (induction n) (auto intro: shrinks_trans [OF shrinks_listener])
  then show ?thesis
    by (simp add: emitAgentEvent_def)
qed

lemma shrinks_timerFires: "shrinks (retryCleanupTimerFires now x w) w"
  by (simp add: retryCleanupTimerFires_def Let_def shrinks_def split: option.splits)

lemma bridgeInv_register:
  assumes "bridgeInv w"
  shows "bridgeInv (registerDeferredDiscordStatus entry w)"
proof (cases "trim (entryRunId entry) = []")
  case True
  then show ?thesis using assms by (simp add: register_blank)
next
  case False
  have l: "listeners (registerDeferredDiscordStatus entry w)
      = listeners (ensureDeferredDiscordStatusBridge w)"
    unfolding register_eq [OF False] Let_def by (simp add: unregister_fields)
  also have "\<dots> = 1"
    using assms by (simp add: bridgeInv_def ensureDeferredDiscordStatusBridge_def)
  finally show ?thesis
    using register_fields(4) [OF refl False, of w] by (simp add: bridgeInv_def)
qed

lemma bridgeInv_step:
  assumes "bridgeInv w"
  shows "bridgeInv (worldStep (now, ev) w)"
proof (cases ev)
  case (NewController p)
  then show ?thesis
    using assms bridgeInv_shrinks [OF shrinks_frame [OF newController_registryOf]] by simp
next
  case (Register entry)
  then show ?thesis using assms by (simp add: bridgeInv_register)
next
  case (Unregister k)
  then show ?thesis using assms bridgeInv_shrinks [OF shrinks_unregister] by simp
next
  case (TerminateWaiting x)
  then show ?thesis
    using assms bridgeInv_shrinks [OF shrinks_frame [OF terminate_registryOf]] by simp
next
  case (AgentEventEmitted evt)
  then show ?thesis using assms bridgeInv_shrinks [OF shrinks_emit] by simp
next
  case (RetryCleanupTimerFires x)
  then show ?thesis using assms bridgeInv_shrinks [OF shrinks_timerFires] by simp
next
  case (OnController cref cev)
  then show ?thesis
    using assms bridgeInv_shrinks [OF shrinks_frame [OF controllerEvent_registryOf]] by simp
next
  case (SleepEnds i)
  then show ?thesis
    using assms bridgeInv_shrinks [OF shrinks_frame [OF sleepEnds_registryOf]] by simp
qed

lemma bridgeInv_run: "bridgeInv w \<Longrightarrow> bridgeInv (worldRun evs w)"
proof (induction evs arbitrary: w)
  case Nil
  then show ?case by simp
next
  case (Cons x evs)
  obtain t ev where x: "x = (t, ev)" by (cases x)
  from Cons.prems have "bridgeInv (worldStep (t, ev) w)"
    by (rule bridgeInv_step)
  then show ?case
    using Cons.IH by (simp add: x)
qed

lemma bridgeInv_initial: "bridgeInv initialWorld"
  by (simp add: bridgeInv_def initialWorld_def)

lemma emit_registered:
  assumes "bridgeInv w" and "DEFERRED_DISCORD_STATUS_BY_RUN w r = Some ref"
  shows "emitAgentEvent now evt w = deferredStatusListener now evt w"
proof -
  from assms have "listeners w = 1"
    unfolding bridgeInv_def by metis
  then show ?thesis
    by (simp add: emitAgentEvent_def)
qed

text \<open>
  C3. Take the module as any sequence of events leaves it, with the run \<open>r\<close> registered,
  and let a lifecycle event of phase \<open>error\<close> for \<open>r\<close> be emitted at time \<open>now\<close>. The
  listener is called with it, and the cleanup timer of the entry is then armed for
  \<open>now + 45000\<close>, the entry still in the map. Whatever follows that is not about \<open>r\<close>
  (events, registrations and removals for other identifiers, timers of other entries,
  anything on controllers) leaves this so. The callback of the timer cannot run before
  \<open>now + 45000\<close>; when it runs, it takes \<open>r\<close> out of the map, leaves the other identifiers
  and every controller as they are, and clears the timer of the entry. From then on an
  event for \<open>r\<close>, a lifecycle start among them, changes nothing at all. In any state, an
  event whose identifier is not in the map changes nothing.
\<close>

theorem deferred_entry_cleanup:
  assumes "w = worldRun evs0 initialWorld"
    and "DEFERRED_DISCORD_STATUS_BY_RUN w r = Some ref"
    and "evRunId evt = r \<and> evStream evt = js ''lifecycle'' \<and> evPhase evt = Some (js ''error'')"
    and "list_all (\<lambda>(t, ev). notAbout r ref ev) evs"
    and "w' = worldRun evs (emitAgentEvent now evt w)"
  shows "emitAgentEvent now evt w = deferredStatusListener now evt w \<and>
         DEFERRED_DISCORD_STATUS_BY_RUN w' r = Some ref \<and>
         map_option retryCleanupTimer (entries w' ref) = Some (Armed (now + 45000) ()) \<and>
         (\<forall>t. t < now + 45000 \<longrightarrow> retryCleanupTimerFires t ref w' = w') \<and>
         (\<forall>t. now + 45000 \<le> t \<longrightarrow>
            DEFERRED_DISCORD_STATUS_BY_RUN (retryCleanupTimerFires t ref w')
              = (DEFERRED_DISCORD_STATUS_BY_RUN w')(r := None) \<and>
            controllers (retryCleanupTimerFires t ref w') = controllers w' \<and>
            map_option retryCleanupTimer (entries (retryCleanupTimerFires t ref w') ref)
              = Some Idle \<and>
            (\<forall>t' late. evRunId late = r \<longrightarrow>
               emitAgentEvent t' late (retryCleanupTimerFires t ref w')
                 = retryCleanupTimerFires t ref w')) \<and>
         (\<forall>v t' unknown. DEFERRED_DISCORD_STATUS_BY_RUN v (evRunId unknown) = None \<longrightarrow>
            deferredStatusListener t' unknown v = v \<and> emitAgentEvent t' unknown v = v)"
proof -
  have inv: "registryInv w" and binv: "bridgeInv w"
    unfolding assms(1)
    by (intro registryInv_run registryInv_initial, intro bridgeInv_run bridgeInv_initial)
  have em: "emitAgentEvent now evt w = deferredStatusListener now evt w"
    using binv assms(2) by (rule emit_registered)
  have "awaitsCleanup r ref (now + DISCORD_STATUS_DEFERRED_ERROR_RETRY_TTL_MS)
      (deferredStatusListener now evt w)"
    using inv assms(2,3) by (intro listener_error) auto
  then have a: "awaitsCleanup r ref (now + 45000) w'"
    unfolding assms(5) em
    using awaitsCleanup_run [OF _ assms(4)]
    by (simp add: DISCORD_STATUS_DEFERRED_ERROR_RETRY_TTL_MS_def)
  note f = cleanup_fires [OF a]
  have late: "\<forall>t. now + 45000 \<le> t \<longrightarrow>
      (\<forall>t' late. evRunId late = r \<longrightarrow>
         emitAgentEvent t' late (retryCleanupTimerFires t ref w') = retryCleanupTimerFires t ref w')"
  proof (intro allI impI)
    fix t t' and late :: AgentEvent
    assume t: "now + 45000 \<le> t" and l: "evRunId late = r"
    from f(2) [OF t] have "DEFERRED_DISCORD_STATUS_BY_RUN (retryCleanupTimerFires t ref w')
        (evRunId late) = None"
      by (simp add: l)
    then show "emitAgentEvent t' late (retryCleanupTimerFires t ref w') = retryCleanupTimerFires t ref w'"
      by (rule emit_unknown)
  qed
  have unk: "\<forall>v t' unknown. DEFERRED_DISCORD_STATUS_BY_RUN v (evRunId unknown) = None \<longrightarrow>
      deferredStatusListener t' unknown v = v \<and> emitAgentEvent t' unknown v = v"
    using listener_unknown emit_unknown by blast
  from a have h: "DEFERRED_DISCORD_STATUS_BY_RUN w' r = Some ref"
    "map_option retryCleanupTimer (entries w' ref) = Some (Armed (now + 45000) ())"
    by (simp_all add: awaitsCleanup_def)
  from em h f late unk show ?thesis by blast
qed

lemma trim_run_a: "trim (js '' run-a '') = js ''run-a''" "js ''run-a'' \<noteq> []"
  "trim (js ''run-b'') = js ''run-b''" "js ''run-b'' \<noteq> js ''run-a''"
  by (simp_all add: trim_def js_def isWhiteSpace_def)

lemma exampleWorld_registry:
  "DEFERRED_DISCORD_STATUS_BY_RUN exampleWorld (js ''run-a'') = Some 0"
  "DEFERRED_DISCORD_STATUS_BY_RUN exampleWorld (js ''run-z'') = None"
  "nextEntry exampleWorld = 1"
proof -
  have t: "trim (entryRunId entryA) = js ''run-a''"
    by (simp add: entryA_def trim_run_a)
  let ?w0 = "newController fullParams initialWorld"
  note f = register_fields [OF t trim_run_a(2), of ?w0]
  have z: "js ''run-z'' \<noteq> js ''run-a''"
    by (simp add: js_def)
  have w0: "DEFERRED_DISCORD_STATUS_BY_RUN ?w0 = Map.empty" "nextEntry ?w0 = 0"
    by (simp_all add: newController_def initialWorld_def)
  have x: "exampleWorld = registerDeferredDiscordStatus entryA ?w0"
    by (simp add: exampleWorld_def)
  show "DEFERRED_DISCORD_STATUS_BY_RUN exampleWorld (js ''run-a'') = Some 0"
    unfolding x f(1) w0 by simp
  show "DEFERRED_DISCORD_STATUS_BY_RUN exampleWorld (js ''run-z'') = None"
    unfolding x f(1) w0 using z by simp
  show "nextEntry exampleWorld = 1"
    unfolding x f(3) w0 by simp
qed

theorem deferred_entry_cleanup_witness:
  "DEFERRED_DISCORD_STATUS_BY_RUN exampleWorld (js ''run-a'') = Some 0 \<and>
   DEFERRED_DISCORD_STATUS_BY_RUN
     (worldRun otherEvents (emitAgentEvent 10 errorEvent exampleWorld)) (js ''run-a'') = Some 0 \<and>
   map_option retryCleanupTimer
     (entries (worldRun otherEvents (emitAgentEvent 10 errorEvent exampleWorld)) 0)
     = Some (Armed 45010 ()) \<and>
   retryCleanupTimerFires 45009 0 (worldRun otherEvents (emitAgentEvent 10 errorEvent exampleWorld))
     = worldRun otherEvents (emitAgentEvent 10 errorEvent exampleWorld) \<and>
   DEFERRED_DISCORD_STATUS_BY_RUN
     (retryCleanupTimerFires 45010 0
        (worldRun otherEvents (emitAgentEvent 10 errorEvent exampleWorld))) (js ''run-a'') = None \<and>
   emitAgentEvent 60000 startEvent
     (retryCleanupTimerFires 45010 0
        (worldRun otherEvents (emitAgentEvent 10 errorEvent exampleWorld)))
     = retryCleanupTimerFires 45010 0
        (worldRun otherEvents (emitAgentEvent 10 errorEvent exampleWorld))"
proof -
  let ?w' = "worldRun otherEvents (emitAgentEvent 10 errorEvent exampleWorld)"
  have e: "evRunId errorEvent = js ''run-a'' \<and> evStream errorEvent = js ''lifecycle'' \<and>
      evPhase errorEvent = Some (js ''error'')"
    by (simp add: errorEvent_def)
  have q: "list_all (\<lambda>(t, ev). notAbout (js ''run-a'') 0 ev) otherEvents"
    by (simp add: otherEvents_def entryB_def entryA_def trim_run_a)
  note t = deferred_entry_cleanup [OF exampleWorld_def exampleWorld_registry(1) e q refl, of 10]
  have s: "evRunId startEvent = js ''run-a''"
    by (simp add: startEvent_def)
  have n: "(10::nat) + 45000 = 45010" by simp
  from t have 1: "DEFERRED_DISCORD_STATUS_BY_RUN ?w' (js ''run-a'') = Some 0"
    "map_option retryCleanupTimer (entries ?w' 0) = Some (Armed 45010 ())"
    unfolding n by blast+
  from t have "\<forall>t. t < 45010 \<longrightarrow> retryCleanupTimerFires t 0 ?w' = ?w'"
    unfolding n by blast
  then have 2: "retryCleanupTimerFires 45009 0 ?w' = ?w'"
    by simp
  from t have "\<forall>t. 45010 \<le> t \<longrightarrow>
      DEFERRED_DISCORD_STATUS_BY_RUN (retryCleanupTimerFires t 0 ?w')
        = (DEFERRED_DISCORD_STATUS_BY_RUN ?w')(js ''run-a'' := None) \<and>
      (\<forall>t' late. evRunId late = js ''run-a'' \<longrightarrow>
         emitAgentEvent t' late (retryCleanupTimerFires t 0 ?w') = retryCleanupTimerFires t 0 ?w')"
    unfolding n by blast
  then have 3: "DEFERRED_DISCORD_STATUS_BY_RUN (retryCleanupTimerFires 45010 0 ?w')
        = (DEFERRED_DISCORD_STATUS_BY_RUN ?w')(js ''run-a'' := None)"
    and "\<forall>t' late. evRunId late = js ''run-a'' \<longrightarrow>
         emitAgentEvent t' late (retryCleanupTimerFires 45010 0 ?w')
           = retryCleanupTimerFires 45010 0 ?w'"
    by simp_all
  with s have 4: "emitAgentEvent 60000 startEvent (retryCleanupTimerFires 45010 0 ?w')
      = retryCleanupTimerFires 45010 0 ?w'"
    by blast
  from 3 have 5: "DEFERRED_DISCORD_STATUS_BY_RUN (retryCleanupTimerFires 45010 0 ?w')
      (js ''run-a'') = None"
    by simp
  from exampleWorld_registry(1) 1 2 4 5 show ?thesis by blast
qed

theorem registry_one_entry_per_run_witness:
  "DEFERRED_DISCORD_STATUS_BY_RUN exampleWorld (js ''run-a'') = Some 0 \<and>
   DEFERRED_DISCORD_STATUS_BY_RUN (registerDeferredDiscordStatus entryA exampleWorld) (js ''run-a'')
     = Some 1 \<and>
   map_option retryCleanupTimer (entries (registerDeferredDiscordStatus entryA exampleWorld) 0)
     = Some Idle \<and>
   unregisterDeferredDiscordStatus (js ''run-z'') exampleWorld = (None, exampleWorld) \<and>
   fst (unregisterDeferredDiscordStatus (js ''run-a'') exampleWorld) = Some 0 \<and>
   DEFERRED_DISCORD_STATUS_BY_RUN (snd (unregisterDeferredDiscordStatus (js ''run-a'') exampleWorld))
     (js ''run-a'') = None"
proof -
  note t = registry_one_entry_per_run [OF exampleWorld_def]
  have a: "trim (entryRunId entryA) = js ''run-a'' \<and> js ''run-a'' \<noteq> []"
    by (simp add: entryA_def trim_run_a)
  from t a have "DEFERRED_DISCORD_STATUS_BY_RUN (registerDeferredDiscordStatus entryA exampleWorld)
      (js ''run-a'') = Some (nextEntry exampleWorld)"
    by blast
  then have 1: "DEFERRED_DISCORD_STATUS_BY_RUN (registerDeferredDiscordStatus entryA exampleWorld)
      (js ''run-a'') = Some 1"
    by (simp add: exampleWorld_registry)
  from t a exampleWorld_registry(1)
  have 2: "map_option retryCleanupTimer (entries (registerDeferredDiscordStatus entryA exampleWorld) 0)
     = Some Idle"
    by blast
  from t exampleWorld_registry(2)
  have 3: "unregisterDeferredDiscordStatus (js ''run-z'') exampleWorld = (None, exampleWorld)"
    by blast
  from t exampleWorld_registry(1)
  have 4: "fst (unregisterDeferredDiscordStatus (js ''run-a'') exampleWorld) = Some 0"
    "DEFERRED_DISCORD_STATUS_BY_RUN (snd (unregisterDeferredDiscordStatus (js ''run-a'') exampleWorld))
       (js ''run-a'') = None"
    by blast+
  from exampleWorld_registry(1) 1 2 3 4 show ?thesis by blast
qed

theorem register_blank_is_noop_witness:
  "list_all isWhiteSpace (entryRunId entryBlank) \<and>
   registerDeferredDiscordStatus entryBlank exampleWorld = exampleWorld \<and>
   DEFERRED_DISCORD_STATUS_BY_RUN (registerDeferredDiscordStatus entryBlank initialWorld)
     = Map.empty \<and>
   \<not> deferredDiscordStatusBridgeReady (registerDeferredDiscordStatus entryBlank initialWorld) \<and>
   listeners (registerDeferredDiscordStatus entryBlank initialWorld) = 0"
proof -
  have b: "list_all isWhiteSpace (entryRunId entryBlank)"
    by (simp add: entryBlank_def entryA_def js_def isWhiteSpace_def)
  note t1 = register_blank_is_noop [OF b, of exampleWorld]
  note t2 = register_blank_is_noop [OF b, of initialWorld]
  from t1 have 1: "registerDeferredDiscordStatus entryBlank exampleWorld = exampleWorld"
    by blast
  from t2 have 2: "DEFERRED_DISCORD_STATUS_BY_RUN (registerDeferredDiscordStatus entryBlank initialWorld)
     = Map.empty"
    "\<not> deferredDiscordStatusBridgeReady (registerDeferredDiscordStatus entryBlank initialWorld)"
    "listeners (registerDeferredDiscordStatus entryBlank initialWorld) = 0"
    by (simp_all add: initialWorld_def)
  from b 1 2 show ?thesis by blast
qed


subsection \<open>Further observations\<close>

text \<open>
  In the machine, \<open>start\<close> is guarded by \<open>disposed\<close> alone: called on a terminal machine
  it chains the task that shows the eyes, and arms no stall timer.
\<close>

lemma start_on_terminal:
  assumes "terminal m" and "\<not> disposed m"
  shows "lane (start now m) = lane m @ [SetEmojiTask Eyes]"
    and "softStallTimerM (start now m) = softStallTimerM m"
    and "hardStallTimerM (start now m) = hardStallTimerM m"
  using assms
  by (simp_all add: start_def markProgress_def scheduleStallChecks_def enqueueM_def)

text \<open>
  A task reads \<open>currentEmoji\<close> when it starts and assigns it when it ends. \<open>dispose\<close>,
  called while the task of \<open>finish\<close> waits for a call, takes the emoji shown before for
  the one to remove; the task then sets the check mark, and nothing removes it: the hold
  timer finds the machine disposed.
\<close>

lemma dispose_during_finish:
  "disposed disposedMeanwhile \<and> currentEmoji disposedMeanwhile = Some CheckMark \<and>
   lane disposedMeanwhile = [] \<and> running disposedMeanwhile = None \<and>
   clearTimer disposedMeanwhile = Spent \<and>
   reactionCalls disposedMeanwhile
     = [(SetReaction Eyes, Fulfilled), (ClearReaction Eyes, Fulfilled),
        (SetReaction CheckMark, Fulfilled), (ClearReaction Eyes, Fulfilled)]"
  by (simp add: disposedMeanwhile_def machine_defs)

text \<open>
  A run identifier made of white space only is not empty, and it is replaced by the
  generated one.
\<close>

lemma blank_runId_replaced:
  "resolveQueueOutcomeRunId g \<lparr>runId = Some (js ''  ''), onQueueOutcome = h\<rparr>
     = (g, \<lparr>runId = Some g, onQueueOutcome = h\<rparr>)"
  by (simp add: resolveQueueOutcomeRunId_def trim_def js_def isWhiteSpace_def)

end
